theory Spec2Isabelle
  imports Main "HOL-Library.AList"
begin

section \<open>Values of the program\<close>

text \<open>
  The module \<^verbatim>\<open>afsutil/system.py\<close> is Python 2 (\<^verbatim>\<open>xrange\<close>): its strings are byte
  strings, modelled as \<^typ>\<open>string\<close>.

  \<^verbatim>\<open>class CommandFailed(Exception)\<close> stores the five constructor arguments in the
  fields \<^verbatim>\<open>cmd\<close>, \<^verbatim>\<open>args\<close>, \<^verbatim>\<open>code\<close>, \<^verbatim>\<open>out\<close> and \<^verbatim>\<open>err\<close>; the constructor checks nothing.
\<close>

record command_failed =
  cmd :: string
  args :: "string list"
  code :: int
  out :: string
  err :: string

text \<open>
  Every exception the modelled functions can raise. \<open>CommandFailed\<close> and
  \<open>AssertionError\<close> are raised by the module itself; \<open>UnboundLocalError\<close> is what
  Python raises when \<^verbatim>\<open>run\<close> reads \<^verbatim>\<open>rc\<close> after a loop that never ran; the others are
  raised by the built-in operations the module calls (indexing, \<^verbatim>\<open>str.index\<close>,
  \<^verbatim>\<open>os.environ[...]\<close>, \<^verbatim>\<open>os.listdir\<close>, spawning \<^verbatim>\<open>None\<close>).
\<close>

datatype exn =
    CommandFailed command_failed
  | AssertionError string
  | UnboundLocalError
  | IndexError
  | ValueError
  | KeyError
  | OSError
  | TypeError

text \<open>What \<^verbatim>\<open>proc.communicate()\<close> and \<^verbatim>\<open>proc.returncode\<close> give for one child process.\<close>

record completed =
  returncode :: int
  stdout :: string
  stderr :: string

section \<open>The host as \<^verbatim>\<open>run\<close> sees it\<close>

text \<open>
  The state of the host outside the program is a value of an arbitrary type \<open>'e\<close>.
  Spawning a child (\<^verbatim>\<open>subprocess.Popen\<close> with \<^verbatim>\<open>executable=cmd\<close>, followed by
  \<^verbatim>\<open>communicate\<close>) and sleeping (\<^verbatim>\<open>time.sleep\<close>) are operations on that state, given
  as parameters. The model covers hosts on which both calls return: a spawn that cannot
  start the program, and a sleep or a cleanup procedure that raises, are outside it.
  The waiting time is a number of seconds that is not negative.
\<close>

record 'e host =
  popen :: "string \<Rightarrow> string list \<Rightarrow> 'e \<Rightarrow> completed \<times> 'e"
  sleep :: "nat \<Rightarrow> 'e \<Rightarrow> 'e"

text \<open>
  The calls that leave the program are recorded, oldest first, next to the state of the
  host, so that they can be counted. Logging is not recorded.
\<close>

datatype event = Sleep nat | Cleanup | Popen string "string list"

record 'e world =
  env :: 'e
  trace :: "event list"

definition do_sleep :: "'e host \<Rightarrow> nat \<Rightarrow> 'e world \<Rightarrow> 'e world" where
  "do_sleep h wait w = \<lparr>env = sleep h wait (env w), trace = trace w @ [Sleep wait]\<rparr>"

text \<open>\<^verbatim>\<open>if cleanup: cleanup()\<close>: \<open>None\<close> is falsy, a procedure is truthy and is called.\<close>

definition do_cleanup :: "('e \<Rightarrow> 'e) option \<Rightarrow> 'e world \<Rightarrow> 'e world" where
  "do_cleanup cleanup w =
     (case cleanup of
        None \<Rightarrow> w
      | Some f \<Rightarrow> \<lparr>env = f (env w), trace = trace w @ [Cleanup]\<rparr>)"

definition do_popen :: "'e host \<Rightarrow> string \<Rightarrow> string list \<Rightarrow> 'e world \<Rightarrow> completed \<times> 'e world" where
  "do_popen h c argv w =
     (let (p, e') = popen h c argv (env w)
      in (p, \<lparr>env = e', trace = trace w @ [Popen c argv]\<rparr>))"

section \<open>\<^verbatim>\<open>run\<close>\<close>

text \<open>
  \<^verbatim>\<open>
  def run(cmd, args=None, quiet=False, retry=0, wait=1, cleanup=None):
      if args is None:
          args = []
      else:
          args = list(args)
      args.insert(0, cmd)
      for attempt in xrange(0, (retry + 1)):
          if attempt > 0:
              ...
              time.sleep(wait)
              if cleanup:
                  cleanup()
          proc = subprocess.Popen(args, executable=cmd, shell=False, ...)
          output,error = proc.communicate()
          rc = proc.returncode
          if rc == 0:
              return output
      raise CommandFailed(cmd, args, rc, output, error);
  \<close>
  The parameter \<^verbatim>\<open>quiet\<close> is never read and is left out. The loop is a recursion over the
  attempt numbers still to come; \<open>prev\<close> holds \<^verbatim>\<open>rc\<close>, \<^verbatim>\<open>output\<close> and \<^verbatim>\<open>error\<close>, which are
  unbound until the first attempt has run.
\<close>

definition arg_vector :: "string \<Rightarrow> string list option \<Rightarrow> string list" where
  "arg_vector c a = c # (case a of None \<Rightarrow> [] | Some xs \<Rightarrow> xs)"

fun run_attempts ::
  "'e host \<Rightarrow> string \<Rightarrow> string list \<Rightarrow> nat \<Rightarrow> ('e \<Rightarrow> 'e) option \<Rightarrow>
   nat list \<Rightarrow> completed option \<Rightarrow> 'e world \<Rightarrow> (exn + string) \<times> 'e world" where
  "run_attempts h c argv wait cleanup [] prev w =
     (case prev of
        None \<Rightarrow> (Inl UnboundLocalError, w)
      | Some p \<Rightarrow>
          (Inl (CommandFailed \<lparr>cmd = c, args = argv, code = returncode p,
                               out = stdout p, err = stderr p\<rparr>), w))"
| "run_attempts h c argv wait cleanup (attempt # rest) prev w =
     (let w1 = (if attempt > 0 then do_cleanup cleanup (do_sleep h wait w) else w);
          (p, w2) = do_popen h c argv w1
      in if returncode p = 0 then (Inr (stdout p), w2)
         else run_attempts h c argv wait cleanup rest (Some p) w2)"

definition run ::
  "'e host \<Rightarrow> string \<Rightarrow> string list option \<Rightarrow> int \<Rightarrow> nat \<Rightarrow> ('e \<Rightarrow> 'e) option \<Rightarrow>
   'e world \<Rightarrow> (exn + string) \<times> 'e world" where
  "run h c a retry wait cleanup w =
     run_attempts h c (arg_vector c a) wait cleanup [0..<nat (retry + 1)] None w"

subsection \<open>What the command does on its successive attempts\<close>

text \<open>
  The outcome of an attempt depends on the state of the host when the child is spawned.
  \<open>env_before i\<close> is that state for attempt \<open>i\<close> (counted from 0) when every earlier
  attempt has been made: between two attempts the program sleeps and then calls the
  cleanup procedure, if there is one. \<open>outcome i\<close> is what attempt \<open>i\<close> then returns, and
  \<open>env_after i\<close> the state it leaves.
\<close>

definition between :: "'e host \<Rightarrow> nat \<Rightarrow> ('e \<Rightarrow> 'e) option \<Rightarrow> 'e \<Rightarrow> 'e" where
  "between h wait cleanup e =
     (case cleanup of None \<Rightarrow> sleep h wait e | Some f \<Rightarrow> f (sleep h wait e))"

primrec env_before ::
  "'e host \<Rightarrow> string \<Rightarrow> string list \<Rightarrow> nat \<Rightarrow> ('e \<Rightarrow> 'e) option \<Rightarrow> 'e \<Rightarrow> nat \<Rightarrow> 'e" where
  "env_before h c argv wait cleanup e 0 = e"
| "env_before h c argv wait cleanup e (Suc i) =
     between h wait cleanup (snd (popen h c argv (env_before h c argv wait cleanup e i)))"

definition outcome ::
  "'e host \<Rightarrow> string \<Rightarrow> string list \<Rightarrow> nat \<Rightarrow> ('e \<Rightarrow> 'e) option \<Rightarrow> 'e \<Rightarrow> nat \<Rightarrow> completed" where
  "outcome h c argv wait cleanup e i =
     fst (popen h c argv (env_before h c argv wait cleanup e i))"

definition env_after ::
  "'e host \<Rightarrow> string \<Rightarrow> string list \<Rightarrow> nat \<Rightarrow> ('e \<Rightarrow> 'e) option \<Rightarrow> 'e \<Rightarrow> nat \<Rightarrow> 'e" where
  "env_after h c argv wait cleanup e i =
     snd (popen h c argv (env_before h c argv wait cleanup e i))"

text \<open>The calls one retry adds to the trace, and the trace of a run that made \<open>k\<close> retries.\<close>

definition retry_events :: "string \<Rightarrow> string list \<Rightarrow> nat \<Rightarrow> ('e \<Rightarrow> 'e) option \<Rightarrow> event list" where
  "retry_events c argv wait cleanup =
     Sleep wait # (case cleanup of None \<Rightarrow> [] | Some f \<Rightarrow> [Cleanup]) @ [Popen c argv]"

definition run_trace :: "string \<Rightarrow> string list \<Rightarrow> nat \<Rightarrow> ('e \<Rightarrow> 'e) option \<Rightarrow> nat \<Rightarrow> event list" where
  "run_trace c argv wait cleanup k =
     Popen c argv # concat (replicate k (retry_events c argv wait cleanup))"

fun is_popen :: "event \<Rightarrow> bool" where
  "is_popen (Popen c argv) = True"
| "is_popen ev = False"

fun is_sleep :: "event \<Rightarrow> bool" where
  "is_sleep (Sleep n) = True"
| "is_sleep ev = False"

fun is_cleanup :: "event \<Rightarrow> bool" where
  "is_cleanup Cleanup = True"
| "is_cleanup ev = False"


section \<open>Strings\<close>

text \<open>
  The string methods of Python 2 byte strings that the module calls. White space is the
  six characters space, \<^verbatim>\<open>\t\<close>, \<^verbatim>\<open>\n\<close>, \<^verbatim>\<open>\v\<close>, \<^verbatim>\<open>\f\<close> and \<^verbatim>\<open>\r\<close>, for \<^verbatim>\<open>str.split()\<close> as for
  \<^verbatim>\<open>\s\<close> in a pattern; \<^verbatim>\<open>\d\<close> is a decimal digit.
\<close>

definition LF :: char where
  "LF = CHR 0x0A"

definition CR :: char where
  "CR = CHR 0x0D"

definition is_space :: "char \<Rightarrow> bool" where
  "is_space ch = (ch \<in> set [CHR '' '', CHR 0x09, CHR 0x0A, CHR 0x0B, CHR 0x0C, CHR 0x0D])"

definition is_digit :: "char \<Rightarrow> bool" where
  "is_digit ch = (ch \<in> set ''0123456789'')"

text \<open>\<^verbatim>\<open>s.split(sep)\<close> for a separator of one character: \<^verbatim>\<open>''.split(':')\<close> is \<^verbatim>\<open>['']\<close>.\<close>

fun split_sep :: "char \<Rightarrow> string \<Rightarrow> string list" where
  "split_sep sep [] = [[]]"
| "split_sep sep (x # xs) =
     (if x = sep then [] # split_sep sep xs
      else (case split_sep sep xs of
              [] \<Rightarrow> [[x]]
            | y # ys \<Rightarrow> (x # y) # ys))"

text \<open>\<^verbatim>\<open>s.strip(ch)\<close> removes every leading and every trailing \<open>ch\<close>.\<close>

definition strip_char :: "char \<Rightarrow> string \<Rightarrow> string" where
  "strip_char ch s = rev (dropWhile (\<lambda>x. x = ch) (rev (dropWhile (\<lambda>x. x = ch) s)))"

text \<open>\<^verbatim>\<open>s.split()\<close>: the maximal runs of characters that are not white space.\<close>

fun split_whitespace :: "string \<Rightarrow> string list" where
  "split_whitespace [] = []"
| "split_whitespace (x # xs) =
     (if is_space x then split_whitespace xs
      else (case xs of
              [] \<Rightarrow> [[x]]
            | y # ys \<Rightarrow>
                if is_space y then [x] # split_whitespace xs
                else (case split_whitespace xs of
                        [] \<Rightarrow> [[x]]
                      | t # ts \<Rightarrow> (x # t) # ts)))"

text \<open>
  \<^verbatim>\<open>s.splitlines()\<close>: a line ends at \<^verbatim>\<open>\n\<close>, \<^verbatim>\<open>\r\<close> or \<^verbatim>\<open>\r\n\<close>; the line ends are dropped and
  no empty line follows the last line end.
\<close>

fun splitlines :: "string \<Rightarrow> string list" where
  "splitlines [] = []"
| "splitlines (x # xs) =
     (if x = LF then [] # splitlines xs
      else if x = CR then
        (case xs of
           [] \<Rightarrow> [[]]
         | y # ys \<Rightarrow> if y = LF then [] # splitlines ys else [] # splitlines xs)
      else (case splitlines xs of
              [] \<Rightarrow> [[x]]
            | l # ls \<Rightarrow> (x # l) # ls))"

text \<open>\<^verbatim>\<open>s.index(sub)\<close>: the lowest index where \<open>sub\<close> starts; \<open>None\<close> stands for ValueError.\<close>

fun str_index :: "string \<Rightarrow> string \<Rightarrow> nat option" where
  "str_index sub [] = (if sub = [] then Some 0 else None)"
| "str_index sub (x # xs) =
     (if take (length sub) (x # xs) = sub then Some 0
      else map_option Suc (str_index sub xs))"

text \<open>\<^verbatim>\<open>sep.join(xs)\<close>.\<close>

fun str_join :: "string \<Rightarrow> string list \<Rightarrow> string" where
  "str_join sep [] = []"
| "str_join sep [x] = x"
| "str_join sep (x # y # ys) = x @ sep @ str_join sep (y # ys)"

definition quoted :: "string \<Rightarrow> string" where
  "quoted s = CHR 0x27 # s @ [CHR 0x27]"

section \<open>Paths\<close>

text \<open>
  \<^verbatim>\<open>os.path.split\<close>, \<^verbatim>\<open>os.path.basename\<close>, \<^verbatim>\<open>os.path.dirname\<close> and \<^verbatim>\<open>os.path.join\<close> of two
  components, as \<^verbatim>\<open>posixpath\<close> defines them:
  \<^verbatim>\<open>
  def split(p):
      i = p.rfind('/') + 1
      head, tail = p[:i], p[i:]
      if head and head != '/'*len(head):
          head = head.rstrip('/')
      return head, tail

  def join(a, b):
      if b.startswith('/'):    path = b
      elif a == '' or a.endswith('/'):    path = a + b
      else:    path = a + '/' + b
  \<close>
\<close>

definition path_split :: "string \<Rightarrow> string \<times> string" where
  "path_split p =
     (let tail = rev (takeWhile (\<lambda>x. x \<noteq> CHR ''/'') (rev p));
          head = rev (dropWhile (\<lambda>x. x \<noteq> CHR ''/'') (rev p))
      in if head \<noteq> [] \<and> (\<exists>x \<in> set head. x \<noteq> CHR ''/'')
         then (rev (dropWhile (\<lambda>x. x = CHR ''/'') (rev head)), tail)
         else (head, tail))"

definition basename :: "string \<Rightarrow> string" where
  "basename p = snd (path_split p)"

definition dirname :: "string \<Rightarrow> string" where
  "dirname p = fst (path_split p)"

definition path_join :: "string \<Rightarrow> string \<Rightarrow> string" where
  "path_join a b =
     (if b \<noteq> [] \<and> hd b = CHR ''/'' then b
      else if a = [] \<or> last a = CHR ''/'' then a @ b
      else a @ ''/'' @ b)"

section \<open>The file system\<close>

text \<open>
  A file system maps path names to nodes. It is a finite table, so that a directory can
  be listed, and it records for which paths \<^verbatim>\<open>os.access(path, os.X_OK)\<close> holds. A path
  name is the key as the program passes it: the model does not normalise names, follows
  symbolic links only in the last component, and has no failure from permissions or
  from a missing parent directory.
\<close>

datatype node = RegularFile | Directory | Special | SymbolicLink string

record filesystem =
  nodes :: "(string \<times> node) list"
  x_ok :: "string \<Rightarrow> bool"

definition lookup :: "filesystem \<Rightarrow> string \<Rightarrow> node option" where
  "lookup fs p = map_of (nodes fs) p"

text \<open>
  \<^verbatim>\<open>os.stat\<close> follows symbolic links: a relative target is read from the directory of the
  link, and after 40 links the kernel gives up (ELOOP). The result is the path reached
  and its node; \<open>None\<close> means that \<^verbatim>\<open>os.stat\<close> fails.
\<close>

fun follow :: "filesystem \<Rightarrow> nat \<Rightarrow> string \<Rightarrow> (string \<times> node) option" where
  "follow fs 0 p =
     (case lookup fs p of
        None \<Rightarrow> None
      | Some (SymbolicLink target) \<Rightarrow> None
      | Some nd \<Rightarrow> Some (p, nd))"
| "follow fs (Suc n) p =
     (case lookup fs p of
        None \<Rightarrow> None
      | Some (SymbolicLink target) \<Rightarrow> follow fs n (path_join (dirname p) target)
      | Some nd \<Rightarrow> Some (p, nd))"

definition stat :: "filesystem \<Rightarrow> string \<Rightarrow> (string \<times> node) option" where
  "stat fs p = follow fs 40 p"

definition isfile :: "filesystem \<Rightarrow> string \<Rightarrow> bool" where
  "isfile fs p = (case stat fs p of Some (q, RegularFile) \<Rightarrow> True | _ \<Rightarrow> False)"

definition isdir :: "filesystem \<Rightarrow> string \<Rightarrow> bool" where
  "isdir fs p = (case stat fs p of Some (q, Directory) \<Rightarrow> True | _ \<Rightarrow> False)"

definition path_exists :: "filesystem \<Rightarrow> string \<Rightarrow> bool" where
  "path_exists fs p = (stat fs p \<noteq> None)"

definition islink :: "filesystem \<Rightarrow> string \<Rightarrow> bool" where
  "islink fs p = (case lookup fs p of Some (SymbolicLink target) \<Rightarrow> True | _ \<Rightarrow> False)"

text \<open>\<^verbatim>\<open>os.remove\<close> unlinks a name that is not a directory; \<^verbatim>\<open>os.symlink\<close> needs a free name.\<close>

definition os_remove :: "string \<Rightarrow> filesystem \<Rightarrow> exn + filesystem" where
  "os_remove p fs =
     (case lookup fs p of
        None \<Rightarrow> Inl OSError
      | Some Directory \<Rightarrow> Inl OSError
      | Some nd \<Rightarrow> Inr (fs\<lparr>nodes := AList.delete p (nodes fs)\<rparr>))"

definition os_symlink :: "string \<Rightarrow> string \<Rightarrow> filesystem \<Rightarrow> exn + filesystem" where
  "os_symlink src dst fs =
     (case lookup fs dst of
        None \<Rightarrow> Inr (fs\<lparr>nodes := AList.update dst (SymbolicLink src) (nodes fs)\<rparr>)
      | Some nd \<Rightarrow> Inl OSError)"

text \<open>
  \<^verbatim>\<open>os.listdir\<close>: the names \<open>n\<close> for which \<open>path/n\<close> is in the table, each once, in the order
  of the table; OSError when the path is not a directory.
\<close>

definition listdir :: "filesystem \<Rightarrow> string \<Rightarrow> exn + string list" where
  "listdir fs path =
     (if isdir fs path
      then Inr (remdups (map basename
             (filter (\<lambda>p. basename p \<noteq> [] \<and> path_join path (basename p) = p)
                (map fst (nodes fs)))))
      else Inl OSError)"

section \<open>\<^verbatim>\<open>which\<close>\<close>

text \<open>
  \<^verbatim>\<open>
  def which(program, extra_paths=None, raise_errors=False):
      dirname, basename = os.path.split(program)
      if dirname:
          if os.path.isfile(program) and os.access(program, os.X_OK):
              return program
          if raise_errors:
              raise AssertionError("Program '%s' is not an executable file." % (program))
      else:
          paths = os.environ['PATH'].split(os.pathsep)
          if extra_paths:
              paths = paths + extra_paths
          for path in paths:
              path = path.strip('"')
              fpath = os.path.join(path, program)
              if os.path.isfile(fpath) and os.access(fpath, os.X_OK):
                  return fpath
          if raise_errors:
              raise AssertionError("Could not find '%s' in paths %s" % (program, ",".join(paths)))
      return None
  \<close>
  \<open>environ_PATH\<close> is the value of the environment variable, \<open>None\<close> when it is not set;
  the result \<open>Inr None\<close> is Python's \<^verbatim>\<open>None\<close>.
\<close>

definition is_executable_file :: "filesystem \<Rightarrow> string \<Rightarrow> bool" where
  "is_executable_file fs p = (isfile fs p \<and> x_ok fs p)"

fun search_paths :: "filesystem \<Rightarrow> string \<Rightarrow> string list \<Rightarrow> string option" where
  "search_paths fs program [] = None"
| "search_paths fs program (path # paths) =
     (let fpath = path_join (strip_char CHR 0x22 path) program
      in if is_executable_file fs fpath then Some fpath
         else search_paths fs program paths)"

definition which ::
  "filesystem \<Rightarrow> string option \<Rightarrow> string \<Rightarrow> string list option \<Rightarrow> bool \<Rightarrow> exn + string option" where
  "which fs environ_PATH program extra_paths raise_errors =
     (if dirname program \<noteq> [] then
        if is_executable_file fs program then Inr (Some program)
        else if raise_errors
          then Inl (AssertionError (''Program '' @ quoted program @ '' is not an executable file.''))
          else Inr None
      else
        (case environ_PATH of
           None \<Rightarrow> Inl KeyError
         | Some value \<Rightarrow>
             (let paths = split_sep CHR '':'' value;
                  paths = (case extra_paths of
                             None \<Rightarrow> paths
                           | Some extra \<Rightarrow> if extra = [] then paths else paths @ extra)
              in case search_paths fs program paths of
                   Some fpath \<Rightarrow> Inr (Some fpath)
                 | None \<Rightarrow>
                     if raise_errors
                     then Inl (AssertionError (''Could not find '' @ quoted program @
                                 '' in paths '' @ str_join '','' paths))
                     else Inr None)))"

section \<open>\<^verbatim>\<open>get_running\<close>\<close>

text \<open>
  \<^verbatim>\<open>
  def get_running():
      ps = which("ps")
      out = run(ps, args=["ax"])
      lines = out.splitlines()
      column = lines[0].index('COMMAND')
      procs = set()
      for line in lines[1:]:
          cmd_line = line[column:]
          if cmd_line[0] == '[':  # skip linux threads
              continue
          command = cmd_line.split()[0]
          procs.add(os.path.basename(command))
      return procs
  \<close>
  Indexing an empty string or an empty list raises IndexError. \<open>collect_procs\<close> is the
  loop, \<open>parse_ps\<close> the part of the function after \<^verbatim>\<open>run\<close> has returned.
\<close>

fun collect_procs :: "nat \<Rightarrow> string list \<Rightarrow> string set \<Rightarrow> exn + string set" where
  "collect_procs column [] procs = Inr procs"
| "collect_procs column (line # rest) procs =
     (let cmd_line = drop column line
      in case cmd_line of
           [] \<Rightarrow> Inl IndexError
         | x # xs \<Rightarrow>
             if x = CHR ''['' then collect_procs column rest procs
             else (case split_whitespace cmd_line of
                     [] \<Rightarrow> Inl IndexError
                   | command # others \<Rightarrow>
                       collect_procs column rest (insert (basename command) procs)))"

definition parse_ps :: "string \<Rightarrow> exn + string set" where
  "parse_ps output =
     (case splitlines output of
        [] \<Rightarrow> Inl IndexError
      | header # rest \<Rightarrow>
          (case str_index ''COMMAND'' header of
             None \<Rightarrow> Inl ValueError
           | Some column \<Rightarrow> collect_procs column rest {}))"

text \<open>
  When \<^verbatim>\<open>which\<close> finds no \<^verbatim>\<open>ps\<close>, \<^verbatim>\<open>run(None, ...)\<close> raises TypeError before it spawns
  anything.
\<close>

definition get_running ::
  "filesystem \<Rightarrow> string option \<Rightarrow> 'e host \<Rightarrow> 'e world \<Rightarrow> (exn + string set) \<times> 'e world" where
  "get_running fs environ_PATH h w =
     (case which fs environ_PATH ''ps'' None False of
        Inl ex \<Rightarrow> (Inl ex, w)
      | Inr None \<Rightarrow> (Inl TypeError, w)
      | Inr (Some ps) \<Rightarrow>
          (case run h ps (Some [''ax'']) 0 1 None w of
             (Inl ex, w1) \<Rightarrow> (Inl ex, w1)
           | (Inr output, w1) \<Rightarrow> (parse_ps output, w1)))"

section \<open>\<^verbatim>\<open>symlink\<close> and \<^verbatim>\<open>_so_symlinks\<close>\<close>

text \<open>
  \<^verbatim>\<open>
  def symlink(src, dst):
      if not os.path.isfile(src):
          raise AssertionError("Failed to make symlink: src %s not found" % (src))
      if os.path.exists(dst) and not os.path.islink(dst):
          raise AssertionError("Failed to make symlink: dst %s exists" % (dst))
      if os.path.islink(dst):
          os.remove(dst)
      os.symlink(src, dst)
  \<close>
\<close>

definition symlink :: "string \<Rightarrow> string \<Rightarrow> filesystem \<Rightarrow> exn + filesystem" where
  "symlink src dst fs =
     (if \<not> isfile fs src
      then Inl (AssertionError (''Failed to make symlink: src '' @ src @ '' not found''))
      else if path_exists fs dst \<and> \<not> islink fs dst
      then Inl (AssertionError (''Failed to make symlink: dst '' @ dst @ '' exists''))
      else (case (if islink fs dst then os_remove dst fs else Inr fs) of
              Inl ex \<Rightarrow> Inl ex
            | Inr fs1 \<Rightarrow> os_symlink src dst fs1))"

text \<open>
  \<^verbatim>\<open>re.match(r'(.+\.so)\.(\d+)\.(\d+)\.(\d+)$', fname)\<close>. The pattern is anchored at both
  ends, and \<^verbatim>\<open>$\<close> also matches just before a newline that ends the string. The three
  numbers hold no dot, so the match is read from the right: a number and the dot before
  it, three times; what is left is group 1, which must end in \<^verbatim>\<open>.so\<close> after one character
  or more and hold no newline (\<^verbatim>\<open>.\<close> matches none). The result is the four groups.
\<close>

definition take_number :: "string \<Rightarrow> (string \<times> string) option" where
  "take_number r =
     (let digits = takeWhile is_digit r
      in case dropWhile is_digit r of
           [] \<Rightarrow> None
         | x # rest \<Rightarrow>
             if digits \<noteq> [] \<and> x = CHR ''.'' then Some (rev digits, rest) else None)"

definition so_match :: "string \<Rightarrow> (string \<times> string \<times> string \<times> string) option" where
  "so_match fname =
     (let r = rev fname;
          r = (case r of [] \<Rightarrow> r | x # xs \<Rightarrow> if x = LF then xs else r)
      in case take_number r of
           None \<Rightarrow> None
         | Some (z, r1) \<Rightarrow>
             (case take_number r1 of
                None \<Rightarrow> None
              | Some (y, r2) \<Rightarrow>
                  (case take_number r2 of
                     None \<Rightarrow> None
                   | Some (x, r3) \<Rightarrow>
                       if take 3 r3 = ''os.'' \<and> 3 < length r3 \<and> LF \<notin> set r3
                       then Some (rev r3, x, y, z)
                       else None)))"

text \<open>
  \<^verbatim>\<open>
  def _so_symlinks(path):
      if not os.path.isdir(path):
          assert AssertionError("Failed to make so symlinks: path '%s' is not a directory.", path)
      for dirent in os.listdir(path):
          fname = os.path.join(path, dirent)
          if os.path.isdir(fname) or os.path.islink(fname):
              continue
          m = re.match(r'(.+\.so)\.(\d+)\.(\d+)\.(\d+)$', fname)
          if m:
              so,x,y,z = m.groups()
              symlink(fname, "%s.%s.%s" % (so, x, y))
              symlink(fname, "%s.%s" % (so, x))
              symlink(fname, so)
  \<close>
  The first statement asserts an exception object, which is true: it never raises, and
  a path that is not a directory fails in \<^verbatim>\<open>os.listdir\<close>. The directory is listed once,
  before the loop.
\<close>

definition so_links :: "string \<Rightarrow> string list" where
  "so_links fname =
     (case so_match fname of
        None \<Rightarrow> []
      | Some (so, x, y, z) \<Rightarrow> [so @ ''.'' @ x @ ''.'' @ y, so @ ''.'' @ x, so])"

fun so_symlinks_loop :: "string \<Rightarrow> string list \<Rightarrow> filesystem \<Rightarrow> exn + filesystem" where
  "so_symlinks_loop path [] fs = Inr fs"
| "so_symlinks_loop path (dirent # rest) fs =
     (let fname = path_join path dirent
      in if isdir fs fname \<or> islink fs fname then so_symlinks_loop path rest fs
         else (case so_match fname of
                 None \<Rightarrow> so_symlinks_loop path rest fs
               | Some (so, x, y, z) \<Rightarrow>
                   (case symlink fname (so @ ''.'' @ x @ ''.'' @ y) fs of
                      Inl ex \<Rightarrow> Inl ex
                    | Inr fs1 \<Rightarrow>
                        (case symlink fname (so @ ''.'' @ x) fs1 of
                           Inl ex \<Rightarrow> Inl ex
                         | Inr fs2 \<Rightarrow>
                             (case symlink fname so fs2 of
                                Inl ex \<Rightarrow> Inl ex
                              | Inr fs3 \<Rightarrow> so_symlinks_loop path rest fs3)))))"

definition so_symlinks :: "string \<Rightarrow> filesystem \<Rightarrow> exn + filesystem" where
  "so_symlinks path fs =
     (case listdir fs path of
        Inl ex \<Rightarrow> Inl ex
      | Inr dirents \<Rightarrow> so_symlinks_loop path dirents fs)"

subsection \<open>Names for what \<^verbatim>\<open>_so_symlinks\<close> leaves\<close>

text \<open>
  A file name of the form \<^verbatim>\<open><base>.so.<x>.<y>.<z>\<close>, and a version number, which is one
  decimal digit or more.
\<close>

definition versioned_name :: "string \<Rightarrow> string \<Rightarrow> string \<Rightarrow> string \<Rightarrow> string" where
  "versioned_name base x y z = base @ ''.so.'' @ x @ ''.'' @ y @ ''.'' @ z"

definition version_number :: "string \<Rightarrow> bool" where
  "version_number n = (n \<noteq> [] \<and> list_all is_digit n)"

text \<open>
  \<^verbatim>\<open>symlink\<close> accepts a destination that is absent or a symbolic link. The owners of a
  path \<open>l\<close> are the entries of the listing, in its order, that are regular files and have
  \<open>l\<close> among their three link names: each of them makes the link \<open>l\<close> in its turn.
\<close>

definition replaceable :: "filesystem \<Rightarrow> string \<Rightarrow> bool" where
  "replaceable fs p = (lookup fs p = None \<or> islink fs p)"

definition owners :: "filesystem \<Rightarrow> string \<Rightarrow> string list \<Rightarrow> string \<Rightarrow> string list" where
  "owners fs path dirents l =
     filter (\<lambda>d. lookup fs (path_join path d) = Some RegularFile
                 \<and> l \<in> set (so_links (path_join path d))) dirents"

section \<open>Unloading the kernel module\<close>

text \<open>
  \<^verbatim>\<open>
  def _linux_unload_module():
      output = run('/sbin/lsmod')
      kmods = re.findall(r'^(libafs|openafs)\s', output, re.M)
      for kmod in kmods:
          run('rmmod', args=[kmod])
  \<close>
  With \<^verbatim>\<open>re.M\<close> the pattern matches at the start of the string and after each newline.
  A match is one of the two names and one character of white space; the names hold no
  newline, so no match covers the start of another line, and \<^verbatim>\<open>findall\<close> returns the
  name matched at each start of a line, in order. \<open>bol\<close> says that the string starts a
  line.
\<close>

definition kmod_at :: "string \<Rightarrow> string option" where
  "kmod_at s =
     (if take 6 s = ''libafs'' \<and> (case drop 6 s of [] \<Rightarrow> False | x # xs \<Rightarrow> is_space x)
      then Some ''libafs''
      else if take 7 s = ''openafs'' \<and> (case drop 7 s of [] \<Rightarrow> False | x # xs \<Rightarrow> is_space x)
      then Some ''openafs''
      else None)"

fun findall_kmods :: "bool \<Rightarrow> string \<Rightarrow> string list" where
  "findall_kmods bol [] = []"
| "findall_kmods bol (x # xs) =
     (if bol then (case kmod_at (x # xs) of None \<Rightarrow> [] | Some kmod \<Rightarrow> [kmod]) else [])
     @ findall_kmods (x = LF) xs"

fun rmmod_each :: "'e host \<Rightarrow> string list \<Rightarrow> 'e world \<Rightarrow> (exn + unit) \<times> 'e world" where
  "rmmod_each h [] w = (Inr (), w)"
| "rmmod_each h (kmod # kmods) w =
     (case run h ''rmmod'' (Some [kmod]) 0 1 None w of
        (Inl ex, w1) \<Rightarrow> (Inl ex, w1)
      | (Inr output, w1) \<Rightarrow> rmmod_each h kmods w1)"

definition linux_unload_module :: "'e host \<Rightarrow> 'e world \<Rightarrow> (exn + unit) \<times> 'e world" where
  "linux_unload_module h w =
     (case run h ''/sbin/lsmod'' None 0 1 None w of
        (Inl ex, w1) \<Rightarrow> (Inl ex, w1)
      | (Inr output, w1) \<Rightarrow> rmmod_each h (findall_kmods True output) w1)"

text \<open>
  \<^verbatim>\<open>
  def _solaris_is_loaded(kmod):
      out = run("/usr/sbin/modinfo", args=["-w"])
      for line in out.splitlines()[1:]: # skip header line
          m = re.match(r'\s*(\d+)\s+\S+\s+\S+\s+\S+\s+\d+\s+(\S+)', line)
          if not m:
              raise AssertionError("Unexpected modinfo output: %s" % (line))
          mid = m.group(1)
          mname = m.group(2)
          if kmod == mname:
              return mid
      return 0

  def _solaris_unload_module():
      module_id = _solaris_is_loaded('afs')
      if module_id != 0:
          run('modunload', args=["-i", module_id])
  \<close>
  Every \<^verbatim>\<open>\S+\<close> and \<^verbatim>\<open>\d+\<close> of the pattern is followed by \<^verbatim>\<open>\s+\<close> or ends the pattern, so each
  matches one whole field of the line: the pattern matches when the line has six fields
  or more and the first and the fifth are numbers; the groups are the first and the sixth
  field. The function returns the integer 0 or the string of group 1, and a string is
  never equal to 0.
\<close>

definition modinfo_match :: "string \<Rightarrow> (string \<times> string) option" where
  "modinfo_match line =
     (case split_whitespace line of
        f1 # f2 # f3 # f4 # f5 # f6 # fs \<Rightarrow>
          if list_all is_digit f1 \<and> list_all is_digit f5 then Some (f1, f6) else None
      | _ \<Rightarrow> None)"

datatype module_id = Zero | ModuleId string

fun find_module :: "string \<Rightarrow> string list \<Rightarrow> exn + module_id" where
  "find_module kmod [] = Inr Zero"
| "find_module kmod (line # rest) =
     (case modinfo_match line of
        None \<Rightarrow> Inl (AssertionError (''Unexpected modinfo output: '' @ line))
      | Some (mid, mname) \<Rightarrow>
          if kmod = mname then Inr (ModuleId mid) else find_module kmod rest)"

definition solaris_is_loaded ::
  "'e host \<Rightarrow> string \<Rightarrow> 'e world \<Rightarrow> (exn + module_id) \<times> 'e world" where
  "solaris_is_loaded h kmod w =
     (case run h ''/usr/sbin/modinfo'' (Some [''-w'']) 0 1 None w of
        (Inl ex, w1) \<Rightarrow> (Inl ex, w1)
      | (Inr output, w1) \<Rightarrow> (find_module kmod (drop 1 (splitlines output)), w1))"

definition solaris_unload_module :: "'e host \<Rightarrow> 'e world \<Rightarrow> (exn + unit) \<times> 'e world" where
  "solaris_unload_module h w =
     (case solaris_is_loaded h ''afs'' w of
        (Inl ex, w1) \<Rightarrow> (Inl ex, w1)
      | (Inr Zero, w1) \<Rightarrow> (Inr (), w1)
      | (Inr (ModuleId mid), w1) \<Rightarrow>
          (case run h ''modunload'' (Some [''-i'', mid]) 0 1 None w1 of
             (Inl ex, w2) \<Rightarrow> (Inl ex, w2)
           | (Inr output, w2) \<Rightarrow> (Inr (), w2)))"

section \<open>Example hosts\<close>

text \<open>
  A host whose state counts the children spawned so far and whose child number \<open>i\<close>
  ends as \<open>script i\<close>; sleeping leaves the state alone. The two scripts are a command that
  fails twice before it succeeds, and one that never succeeds.
\<close>

definition scripted_host :: "(nat \<Rightarrow> completed) \<Rightarrow> nat host" where
  "scripted_host script =
     \<lparr>popen = (\<lambda>c argv e. (script e, Suc e)), sleep = (\<lambda>seconds e. e)\<rparr>"

definition fails_twice :: "nat \<Rightarrow> completed" where
  "fails_twice i =
     (if i < 2 then \<lparr>returncode = 1, stdout = ''partial'', stderr = ''busy''\<rparr>
      else \<lparr>returncode = 0, stdout = ''done'', stderr = ''warning''\<rparr>)"

definition always_fails :: "nat \<Rightarrow> completed" where
  "always_fails i = \<lparr>returncode = 1, stdout = [], stderr = ''no''\<rparr>"

text \<open>
  The output of \<^verbatim>\<open>ps ax\<close> with a line that ends before the COMMAND column, and a file
  system with \<^verbatim>\<open>/bin/ps\<close>.
\<close>

definition ps_output :: string where
  "ps_output =
     ''  PID TTY      STAT   TIME COMMAND'' @ [LF] @
     ''    1 ?        Ss     0:01 /sbin/init splash'' @ [LF] @
     ''    2 ?        S      0:00 [kthreadd]'' @ [LF] @
     ''  811 ?        Z      0:00'' @ [LF] @
     '' 1042 pts/0    R+     0:00 ps ax'' @ [LF]"

definition ps_filesystem :: filesystem where
  "ps_filesystem =
     \<lparr>nodes = [(''/bin'', Directory), (''/bin/ps'', RegularFile)], x_ok = (\<lambda>p. True)\<rparr>"

text \<open>
  A host without the AFS kernel module: what \<^verbatim>\<open>lsmod\<close> and \<^verbatim>\<open>modinfo -w\<close> print there; any
  other command fails.
\<close>

definition lsmod_output :: string where
  "lsmod_output =
     ''Module                  Size  Used by'' @ [LF] @
     ''nfsv3                  57344  1'' @ [LF] @
     ''libafs_helper          16384  0'' @ [LF] @
     ''ext4                  589824  2'' @ [LF]"

definition modinfo_output :: string where
  "modinfo_output =
     '' Id Loadaddr   Size Info Rev Module Name'' @ [LF] @
     ''  0 fffffffffb800000 11d1f0   -   0  unix ()'' @ [LF] @
     ''  1 fffffffffb8a6f60 2c4508   -   0  genunix ()'' @ [LF] @
     '' 72 fffffffff7a5b000   5f48  17   1  nfs (NFS syscall, client, and common)'' @ [LF]"

definition module_host :: "nat host" where
  "module_host =
     \<lparr>popen = (\<lambda>c argv e.
        (if c = ''/sbin/lsmod'' then \<lparr>returncode = 0, stdout = lsmod_output, stderr = []\<rparr>
         else if c = ''/usr/sbin/modinfo''
           then \<lparr>returncode = 0, stdout = modinfo_output, stderr = []\<rparr>
         else \<lparr>returncode = 1, stdout = [], stderr = ''not loaded''\<rparr>, Suc e)),
      sleep = (\<lambda>seconds e. e)\<rparr>"

section \<open>Example file systems\<close>



text \<open>
  A library directory with one versioned library; the same with a regular file where a
  link belongs; one with two versions of a library; and one reached by a relative path.
\<close>

definition lib_filesystem :: filesystem where
  "lib_filesystem =
     \<lparr>nodes = [(''/lib'', Directory), (''/lib/foo.so.1.2.3'', RegularFile)],
      x_ok = (\<lambda>p. False)\<rparr>"

definition clash_filesystem :: filesystem where
  "clash_filesystem =
     \<lparr>nodes = [(''/lib'', Directory), (''/lib/foo.so.1.2.3'', RegularFile),
               (''/lib/foo.so'', RegularFile)],
      x_ok = (\<lambda>p. False)\<rparr>"

definition two_versions_filesystem :: filesystem where
  "two_versions_filesystem =
     \<lparr>nodes = [(''/lib'', Directory), (''/lib/foo.so.1.2.3'', RegularFile),
               (''/lib/foo.so.1.2.4'', RegularFile)],
      x_ok = (\<lambda>p. False)\<rparr>"

definition relative_filesystem :: filesystem where
  "relative_filesystem =
     \<lparr>nodes = [(''lib'', Directory), (''lib/foo.so.1.2.3'', RegularFile)],
      x_ok = (\<lambda>p. False)\<rparr>"

section \<open>Properties of \<^verbatim>\<open>run\<close>\<close>

subsection \<open>The loop, attempt by attempt\<close>

lemma retry_step:
  "env w = env_after h c argv wait cleanup e i \<Longrightarrow>
   do_popen h c argv (do_cleanup cleanup (do_sleep h wait w)) =
     (outcome h c argv wait cleanup e (Suc i),
      \<lparr>env = env_after h c argv wait cleanup e (Suc i),
       trace = trace w @ retry_events c argv wait cleanup\<rparr>)"
  by (simp add: do_popen_def do_cleanup_def do_sleep_def outcome_def env_after_def
      between_def retry_events_def split: option.splits prod.splits)

lemma run_attempts_all_fail:
  "env w = env_after h c argv wait cleanup e i \<Longrightarrow>
   \<forall>j. i < j \<and> j < m \<longrightarrow> returncode (outcome h c argv wait cleanup e j) \<noteq> 0 \<Longrightarrow>
   p = outcome h c argv wait cleanup e i \<Longrightarrow> i < m \<Longrightarrow>
   run_attempts h c argv wait cleanup [Suc i..<m] (Some p) w =
     (Inl (CommandFailed \<lparr>cmd = c, args = argv,
            code = returncode (outcome h c argv wait cleanup e (m - 1)),
            out = stdout (outcome h c argv wait cleanup e (m - 1)),
            err = stderr (outcome h c argv wait cleanup e (m - 1))\<rparr>),
      \<lparr>env = env_after h c argv wait cleanup e (m - 1),
       trace = trace w @ concat (replicate (m - Suc i) (retry_events c argv wait cleanup))\<rparr>)"
proof (induction "m - Suc i" arbitrary: i w p)
  case 0
  then have "m = Suc i" by simp
  with 0 show ?case by simp
next
  case (Suc d)
  then have lt: "Suc i < m" by simp
  then have upt: "[Suc i..<m] = Suc i # [Suc (Suc i)..<m]" by (simp add: upt_conv_Cons)
  have nz: "returncode (outcome h c argv wait cleanup e (Suc i)) \<noteq> 0"
    using Suc.prems(2) lt by simp
  have step: "do_popen h c argv (do_cleanup cleanup (do_sleep h wait w)) =
     (outcome h c argv wait cleanup e (Suc i),
      \<lparr>env = env_after h c argv wait cleanup e (Suc i),
       trace = trace w @ retry_events c argv wait cleanup\<rparr>)"
    using Suc.prems(1) by (rule retry_step)
  have IH: "run_attempts h c argv wait cleanup [Suc (Suc i)..<m]
       (Some (outcome h c argv wait cleanup e (Suc i)))
       \<lparr>env = env_after h c argv wait cleanup e (Suc i),
        trace = trace w @ retry_events c argv wait cleanup\<rparr> =
     (Inl (CommandFailed \<lparr>cmd = c, args = argv,
            code = returncode (outcome h c argv wait cleanup e (m - 1)),
            out = stdout (outcome h c argv wait cleanup e (m - 1)),
            err = stderr (outcome h c argv wait cleanup e (m - 1))\<rparr>),
      \<lparr>env = env_after h c argv wait cleanup e (m - 1),
       trace = (trace w @ retry_events c argv wait cleanup) @
          concat (replicate (m - Suc (Suc i)) (retry_events c argv wait cleanup))\<rparr>)"
    using Suc.hyps(1)[of "Suc i" "\<lparr>env = env_after h c argv wait cleanup e (Suc i),
        trace = trace w @ retry_events c argv wait cleanup\<rparr>" "outcome h c argv wait cleanup e (Suc i)"]
      Suc.hyps(2) Suc.prems(2) lt by simp
  have rep: "m - Suc i = Suc (m - Suc (Suc i))" using lt by simp
  show ?case
    by (simp only: upt run_attempts.simps step IH Let_def prod.case nz if_False rep
        replicate_Suc concat.simps append_assoc zero_less_Suc if_True)
qed

lemma run_attempts_success:
  "env w = env_after h c argv wait cleanup e i \<Longrightarrow>
   \<forall>j. i < j \<and> j < k \<longrightarrow> returncode (outcome h c argv wait cleanup e j) \<noteq> 0 \<Longrightarrow>
   returncode (outcome h c argv wait cleanup e k) = 0 \<Longrightarrow> i < k \<Longrightarrow> k < m \<Longrightarrow>
   run_attempts h c argv wait cleanup [Suc i..<m] (Some p) w =
     (Inr (stdout (outcome h c argv wait cleanup e k)),
      \<lparr>env = env_after h c argv wait cleanup e k,
       trace = trace w @ concat (replicate (k - i) (retry_events c argv wait cleanup))\<rparr>)"
proof (induction "k - Suc i" arbitrary: i w p)
  case 0
  then have k: "k = Suc i" by simp
  then have upt: "[Suc i..<m] = Suc i # [Suc (Suc i)..<m]" using 0 by (simp add: upt_conv_Cons)
  have step: "do_popen h c argv (do_cleanup cleanup (do_sleep h wait w)) =
     (outcome h c argv wait cleanup e (Suc i),
      \<lparr>env = env_after h c argv wait cleanup e (Suc i),
       trace = trace w @ retry_events c argv wait cleanup\<rparr>)"
    using "0.prems"(1) by (rule retry_step)
  show ?case using "0.prems"(3)
    by (simp add: upt step k)
next
  case (Suc d)
  then have lt: "Suc i < k" by simp
  then have upt: "[Suc i..<m] = Suc i # [Suc (Suc i)..<m]" using Suc.prems by (simp add: upt_conv_Cons)
  have nz: "returncode (outcome h c argv wait cleanup e (Suc i)) \<noteq> 0"
    using Suc.prems(2) lt by simp
  have step: "do_popen h c argv (do_cleanup cleanup (do_sleep h wait w)) =
     (outcome h c argv wait cleanup e (Suc i),
      \<lparr>env = env_after h c argv wait cleanup e (Suc i),
       trace = trace w @ retry_events c argv wait cleanup\<rparr>)"
    using Suc.prems(1) by (rule retry_step)
  have IH: "run_attempts h c argv wait cleanup [Suc (Suc i)..<m]
       (Some (outcome h c argv wait cleanup e (Suc i)))
       \<lparr>env = env_after h c argv wait cleanup e (Suc i),
        trace = trace w @ retry_events c argv wait cleanup\<rparr> =
     (Inr (stdout (outcome h c argv wait cleanup e k)),
      \<lparr>env = env_after h c argv wait cleanup e k,
       trace = (trace w @ retry_events c argv wait cleanup) @
          concat (replicate (k - Suc i) (retry_events c argv wait cleanup))\<rparr>)"
    using Suc.hyps(1)[of "Suc i" "\<lparr>env = env_after h c argv wait cleanup e (Suc i),
        trace = trace w @ retry_events c argv wait cleanup\<rparr>" "outcome h c argv wait cleanup e (Suc i)"]
      Suc.hyps(2) Suc.prems lt by simp
  have rep: "k - i = Suc (k - Suc i)" using lt by simp
  show ?case
    by (simp only: upt run_attempts.simps step IH Let_def prod.case nz if_False rep
        replicate_Suc concat.simps append_assoc zero_less_Suc if_True)
qed

lemma first_step:
  "do_popen h c argv \<lparr>env = e, trace = t\<rparr> =
     (outcome h c argv wait cleanup e 0,
      \<lparr>env = env_after h c argv wait cleanup e 0, trace = t @ [Popen c argv]\<rparr>)"
  by (simp add: do_popen_def outcome_def env_after_def split: prod.splits)


lemma upt_from_0: "0 < m \<Longrightarrow> [0..<m] = 0 # [Suc 0..<m]"
  by (simp add: upt_conv_Cons)

lemma run_result:
  "run h c a retry wait cleanup \<lparr>env = e, trace = t\<rparr> =
    (if retry < 0 then (Inl UnboundLocalError, \<lparr>env = e, trace = t\<rparr>)
     else case find (\<lambda>j. returncode (outcome h c (arg_vector c a) wait cleanup e j) = 0)
                 [0..<Suc (nat retry)] of
        Some k \<Rightarrow>
          (Inr (stdout (outcome h c (arg_vector c a) wait cleanup e k)),
           \<lparr>env = env_after h c (arg_vector c a) wait cleanup e k,
            trace = t @ run_trace c (arg_vector c a) wait cleanup k\<rparr>)
      | None \<Rightarrow>
          (Inl (CommandFailed \<lparr>cmd = c, args = arg_vector c a,
                 code = returncode (outcome h c (arg_vector c a) wait cleanup e (nat retry)),
                 out = stdout (outcome h c (arg_vector c a) wait cleanup e (nat retry)),
                 err = stderr (outcome h c (arg_vector c a) wait cleanup e (nat retry))\<rparr>),
           \<lparr>env = env_after h c (arg_vector c a) wait cleanup e (nat retry),
            trace = t @ run_trace c (arg_vector c a) wait cleanup (nat retry)\<rparr>))"
proof (cases "retry < 0")
  case True
  then have "nat (retry + 1) = 0" by simp
  then show ?thesis using True by (simp add: run_def)
next
  case False
  define argv where "argv = arg_vector c a"
  define n where "n = nat retry"
  define ok where "ok = (\<lambda>j. returncode (outcome h c argv wait cleanup e j) = 0)"
  have m: "nat (retry + 1) = Suc n" using False by (simp add: n_def)
  have first: "do_popen h c argv \<lparr>env = e, trace = t\<rparr> =
     (outcome h c argv wait cleanup e 0,
      \<lparr>env = env_after h c argv wait cleanup e 0, trace = t @ [Popen c argv]\<rparr>)"
    by (rule first_step)
  have unfold: "run h c a retry wait cleanup \<lparr>env = e, trace = t\<rparr> =
      (if ok 0 then (Inr (stdout (outcome h c argv wait cleanup e 0)),
                     \<lparr>env = env_after h c argv wait cleanup e 0, trace = t @ [Popen c argv]\<rparr>)
       else run_attempts h c argv wait cleanup [Suc 0..<Suc n]
              (Some (outcome h c argv wait cleanup e 0))
              \<lparr>env = env_after h c argv wait cleanup e 0, trace = t @ [Popen c argv]\<rparr>)"
    unfolding run_def m argv_def[symmetric]
    by (simp only: upt_from_0[OF zero_less_Suc] run_attempts.simps less_irrefl if_False
        Let_def first prod.case ok_def)
  show ?thesis
  proof (cases "find ok [0..<Suc n]")
    case None
    then have all: "\<forall>j. j < Suc n \<longrightarrow> \<not> ok j" by (simp add: find_None_iff del: upt_Suc)
    then have "\<not> ok 0" by simp
    moreover have "run_attempts h c argv wait cleanup [Suc 0..<Suc n]
              (Some (outcome h c argv wait cleanup e 0))
              \<lparr>env = env_after h c argv wait cleanup e 0, trace = t @ [Popen c argv]\<rparr> =
        (Inl (CommandFailed \<lparr>cmd = c, args = argv,
            code = returncode (outcome h c argv wait cleanup e (Suc n - 1)),
            out = stdout (outcome h c argv wait cleanup e (Suc n - 1)),
            err = stderr (outcome h c argv wait cleanup e (Suc n - 1))\<rparr>),
      \<lparr>env = env_after h c argv wait cleanup e (Suc n - 1),
       trace = trace \<lparr>env = env_after h c argv wait cleanup e 0, trace = t @ [Popen c argv]\<rparr>
          @ concat (replicate (Suc n - Suc 0) (retry_events c argv wait cleanup))\<rparr>)"
      by (rule run_attempts_all_fail) (use all in \<open>simp_all add: ok_def\<close>)
    ultimately show ?thesis using None False unfold
      by (simp add: run_trace_def argv_def[symmetric] n_def[symmetric] ok_def[symmetric])
  next
    case (Some k)
    then obtain i where i: "i < length [0..<Suc n]" "ok ([0..<Suc n] ! i)" "k = [0..<Suc n] ! i"
        "\<forall>j<i. \<not> ok ([0..<Suc n] ! j)"
      by (auto simp: find_Some_iff)
    then have k: "k < Suc n" "ok k" and before: "\<forall>j. j < k \<longrightarrow> \<not> ok j"
      by (auto simp del: upt_Suc simp: nth_upt) 
    show ?thesis
    proof (cases k)
      case 0
      then show ?thesis using Some False unfold k
        by (simp add: run_trace_def argv_def[symmetric] n_def[symmetric] ok_def[symmetric] del: upt_Suc)
    next
      case (Suc k')
      then have "\<not> ok 0" using before by simp
      moreover have "run_attempts h c argv wait cleanup [Suc 0..<Suc n]
              (Some (outcome h c argv wait cleanup e 0))
              \<lparr>env = env_after h c argv wait cleanup e 0, trace = t @ [Popen c argv]\<rparr> =
        (Inr (stdout (outcome h c argv wait cleanup e k)),
         \<lparr>env = env_after h c argv wait cleanup e k,
          trace = trace \<lparr>env = env_after h c argv wait cleanup e 0, trace = t @ [Popen c argv]\<rparr>
            @ concat (replicate (k - 0) (retry_events c argv wait cleanup))\<rparr>)"
        by (rule run_attempts_success) (use k before Suc in \<open>simp_all add: ok_def\<close>)
      ultimately show ?thesis using Some False unfold
        by (simp add: run_trace_def argv_def[symmetric] n_def[symmetric] ok_def[symmetric] del: upt_Suc)
    qed
  qed
qed


lemma filter_popen_run_trace:
  "length (filter is_popen (run_trace c argv wait cleanup k)) = Suc k"
  by (induction k) (simp_all add: run_trace_def retry_events_def split: option.splits)

lemma filter_sleep_run_trace:
  "length (filter is_sleep (run_trace c argv wait cleanup k)) = k"
  by (induction k) (simp_all add: run_trace_def retry_events_def split: option.splits)

lemma filter_cleanup_run_trace:
  "length (filter is_cleanup (run_trace c argv wait cleanup k)) = (if cleanup = None then 0 else k)"
  by (induction k) (simp_all add: run_trace_def retry_events_def split: option.splits)

lemma find_upt_None:
  "(find P [0..<Suc n] = None) = (\<forall>i\<le>n. \<not> P i)"
  by (auto simp: find_None_iff less_Suc_eq_le simp del: upt_Suc)

lemma find_upt_Some:
  "(find P [0..<Suc n] = Some k) = (k \<le> n \<and> P k \<and> (\<forall>j<k. \<not> P j))"
proof -
  have "(find P [0..<Suc n] = Some k) =
        (\<exists>i<length [0..<Suc n]. P ([0..<Suc n] ! i) \<and> k = [0..<Suc n] ! i \<and> (\<forall>j<i. \<not> P ([0..<Suc n] ! j)))"
    by (rule find_Some_iff)
  also have "\<dots> = (k \<le> n \<and> P k \<and> (\<forall>j<k. \<not> P j))"
    by (auto simp del: upt_Suc simp: nth_upt less_Suc_eq_le)
  finally show ?thesis .
qed

lemma env_before_scripted:
  "env_before (scripted_host script) c argv wait None e i = e + i"
  by (induction i) (simp_all add: scripted_host_def between_def)

lemma outcome_scripted:
  "outcome (scripted_host script) c argv wait None e i = script (e + i)"
  by (simp add: outcome_def env_before_scripted) (simp add: scripted_host_def)

subsection \<open>The claims about \<^verbatim>\<open>run\<close>\<close>

text \<open>
  Claim C1. For every retry count \<open>n \<ge> 0\<close> and every command that exits non-zero on all
  its attempts (numbered \<open>0..n\<close>), \<^verbatim>\<open>run\<close> raises CommandFailed after exactly \<open>n + 1\<close>
  spawns and exactly \<open>n\<close> sleeps. The calls are the first spawn followed by \<open>n\<close> retries,
  each a sleep, the cleanup if there is one, and a spawn: no sleep comes before the first
  attempt.
\<close>

theorem run_failing_command_attempts:
  assumes "\<forall>i\<le>n. returncode (outcome h c (arg_vector c a) wait cleanup e i) \<noteq> 0"
  shows "fst (run h c a (int n) wait cleanup \<lparr>env = e, trace = []\<rparr>) =
           Inl (CommandFailed \<lparr>cmd = c, args = arg_vector c a,
                  code = returncode (outcome h c (arg_vector c a) wait cleanup e n),
                  out = stdout (outcome h c (arg_vector c a) wait cleanup e n),
                  err = stderr (outcome h c (arg_vector c a) wait cleanup e n)\<rparr>)
       \<and> trace (snd (run h c a (int n) wait cleanup \<lparr>env = e, trace = []\<rparr>)) =
           run_trace c (arg_vector c a) wait cleanup n
       \<and> length (filter is_popen (trace (snd (run h c a (int n) wait cleanup \<lparr>env = e, trace = []\<rparr>)))) = n + 1
       \<and> length (filter is_sleep (trace (snd (run h c a (int n) wait cleanup \<lparr>env = e, trace = []\<rparr>)))) = n"
proof -
  have "find (\<lambda>j. returncode (outcome h c (arg_vector c a) wait cleanup e j) = 0) [0..<Suc n] = None"
    using assms by (simp only: find_upt_None)
  then show ?thesis
    by (simp add: run_result filter_popen_run_trace filter_sleep_run_trace del: upt_Suc)
qed

theorem run_failing_command_attempts_witness:
  "returncode (always_fails 0) \<noteq> 0 \<and> returncode (always_fails 1) \<noteq> 0
   \<and> returncode (always_fails 2) \<noteq> 0
   \<and> fst (run (scripted_host always_fails) ''false'' None 2 1 None \<lparr>env = 0, trace = []\<rparr>) =
       Inl (CommandFailed \<lparr>cmd = ''false'', args = [''false''], code = 1, out = [],
                            err = ''no''\<rparr>)
   \<and> trace (snd (run (scripted_host always_fails) ''false'' None 2 1 None \<lparr>env = 0, trace = []\<rparr>)) =
       [Popen ''false'' [''false''], Sleep 1, Popen ''false'' [''false''],
        Sleep 1, Popen ''false'' [''false'']]"
proof -
  have h: "\<forall>i\<le>2. returncode (outcome (scripted_host always_fails) ''false''
             (arg_vector ''false'' None) 1 None 0 i) \<noteq> 0"
    by (simp add: outcome_scripted always_fails_def)
  from run_failing_command_attempts[OF h] show ?thesis
    by (simp add: outcome_scripted always_fails_def arg_vector_def run_trace_def
        retry_events_def eval_nat_numeral)
qed

text \<open>
  Claim C2. When the command exits non-zero on its first \<open>k\<close> attempts and with code 0 on
  the next one, \<open>k \<le> n\<close>, \<^verbatim>\<open>run\<close> returns the output captured on that attempt and nothing
  of the earlier ones, and has spawned exactly \<open>k + 1\<close> children: no attempt follows.
\<close>

theorem run_returns_first_success:
  assumes "k \<le> n"
    and "\<forall>j<k. returncode (outcome h c (arg_vector c a) wait cleanup e j) \<noteq> 0"
    and "returncode (outcome h c (arg_vector c a) wait cleanup e k) = 0"
  shows "fst (run h c a (int n) wait cleanup \<lparr>env = e, trace = []\<rparr>) =
           Inr (stdout (outcome h c (arg_vector c a) wait cleanup e k))
       \<and> trace (snd (run h c a (int n) wait cleanup \<lparr>env = e, trace = []\<rparr>)) =
           run_trace c (arg_vector c a) wait cleanup k
       \<and> length (filter is_popen (trace (snd (run h c a (int n) wait cleanup \<lparr>env = e, trace = []\<rparr>)))) = k + 1"
proof -
  have "find (\<lambda>j. returncode (outcome h c (arg_vector c a) wait cleanup e j) = 0) [0..<Suc n] = Some k"
    using assms by (simp only: find_upt_Some)
  then show ?thesis
    by (simp add: run_result filter_popen_run_trace del: upt_Suc)
qed

theorem run_returns_first_success_witness:
  "(2::nat) \<le> 3 \<and> returncode (fails_twice 0) \<noteq> 0 \<and> returncode (fails_twice 1) \<noteq> 0
   \<and> returncode (fails_twice 2) = 0
   \<and> fst (run (scripted_host fails_twice) ''/bin/vos'' (Some [''listvol'']) 3 1 None
            \<lparr>env = 0, trace = []\<rparr>) = Inr ''done''
   \<and> trace (snd (run (scripted_host fails_twice) ''/bin/vos'' (Some [''listvol'']) 3 1 None
            \<lparr>env = 0, trace = []\<rparr>)) =
       [Popen ''/bin/vos'' [''/bin/vos'', ''listvol''], Sleep 1,
        Popen ''/bin/vos'' [''/bin/vos'', ''listvol''], Sleep 1,
        Popen ''/bin/vos'' [''/bin/vos'', ''listvol'']]"
proof -
  have h1: "(2::nat) \<le> 3" by simp
  have h2: "\<forall>j<2. returncode (outcome (scripted_host fails_twice) ''/bin/vos''
             (arg_vector ''/bin/vos'' (Some [''listvol''])) 1 None 0 j) \<noteq> 0"
    by (simp add: outcome_scripted fails_twice_def)
  have h3: "returncode (outcome (scripted_host fails_twice) ''/bin/vos''
             (arg_vector ''/bin/vos'' (Some [''listvol''])) 1 None 0 2) = 0"
    by (simp add: outcome_scripted fails_twice_def)
  from run_returns_first_success[OF h1 h2 h3] show ?thesis
    by (simp add: outcome_scripted fails_twice_def arg_vector_def run_trace_def
        retry_events_def eval_nat_numeral)
qed

text \<open>
  Claim C3, as the code has it. A successful \<^verbatim>\<open>run\<close> returns the captured standard output
  of the first attempt that exits with code 0, and only that: the value returned is a
  string, with no exit code and no standard error in it.
\<close>

theorem run_returns_stdout_of_success:
  assumes "fst (run h c a retry wait cleanup \<lparr>env = e, trace = t\<rparr>) = Inr v"
  shows "\<exists>k. 0 \<le> retry \<and> k \<le> nat retry
           \<and> returncode (outcome h c (arg_vector c a) wait cleanup e k) = 0
           \<and> (\<forall>j<k. returncode (outcome h c (arg_vector c a) wait cleanup e j) \<noteq> 0)
           \<and> v = stdout (outcome h c (arg_vector c a) wait cleanup e k)"
proof (cases "find (\<lambda>j. returncode (outcome h c (arg_vector c a) wait cleanup e j) = 0) [0..<Suc (nat retry)]")
  case None
  then show ?thesis using assms by (simp add: run_result del: upt_Suc split: if_splits)
next
  case (Some k)
  then have "k \<le> nat retry \<and> returncode (outcome h c (arg_vector c a) wait cleanup e k) = 0
     \<and> (\<forall>j<k. returncode (outcome h c (arg_vector c a) wait cleanup e j) \<noteq> 0)"
    by (simp only: find_upt_Some) simp
  moreover have "0 \<le> retry \<and> v = stdout (outcome h c (arg_vector c a) wait cleanup e k)"
    using assms Some by (simp add: run_result del: upt_Suc split: if_splits)
  ultimately show ?thesis by blast
qed

theorem run_returns_stdout_of_success_witness:
  "fst (run (scripted_host fails_twice) ''/bin/vos'' None 2 1 None \<lparr>env = 0, trace = []\<rparr>) =
     Inr ''done''
   \<and> (\<exists>k. (0::int) \<le> 2 \<and> k \<le> nat 2 \<and> returncode (fails_twice k) = 0
          \<and> ''done'' = stdout (fails_twice k))"
proof -
  have h: "fst (run (scripted_host fails_twice) ''/bin/vos'' None 2 1 None
             \<lparr>env = 0, trace = []\<rparr>) = Inr ''done''"
    by code_simp
  from run_returns_stdout_of_success[OF h] h show ?thesis
    by (auto simp: outcome_scripted)
qed

text \<open>
  Claim C3 as stated fails: two successful invocations whose children wrote different
  standard errors return the same value, so the value does not hold the standard error.
\<close>

theorem run_result_omits_stderr_counterexample:
  "fst (run (scripted_host (\<lambda>i. \<lparr>returncode = 0, stdout = ''done'', stderr = ''warning''\<rparr>))
          ''/bin/vos'' None 0 1 None \<lparr>env = 0, trace = []\<rparr>) = Inr ''done''
   \<and> fst (run (scripted_host (\<lambda>i. \<lparr>returncode = 0, stdout = ''done'', stderr = []\<rparr>))
          ''/bin/vos'' None 0 1 None \<lparr>env = 0, trace = []\<rparr>) = Inr ''done''
   \<and> stderr (outcome (scripted_host (\<lambda>i. \<lparr>returncode = 0, stdout = ''done'', stderr = ''warning''\<rparr>))
          ''/bin/vos'' [''/bin/vos''] 1 None 0 0) = ''warning''
   \<and> stderr (outcome (scripted_host (\<lambda>i. \<lparr>returncode = 0, stdout = ''done'', stderr = []\<rparr>))
          ''/bin/vos'' [''/bin/vos''] 1 None 0 0) = []"
  by (simp add: run_result outcome_scripted)

lemma env_after_with_cleanup:
  "env_after h c argv wait (Some f) e k =
     ((\<lambda>x. snd (popen h c argv (f (sleep h wait x)))) ^^ k) (snd (popen h c argv e))"
  by (induction k) (simp_all add: env_after_def between_def)

text \<open>
  Claim C4. With a cleanup procedure \<open>f\<close> set, the calls of a \<^verbatim>\<open>run\<close> are the first spawn
  followed, for each of the \<open>k\<close> retries made, by one sleep, one call of the cleanup and
  one spawn, in this order: the cleanup is called once before each retry, never before the
  first attempt, \<open>k\<close> times in all. The host is left in the state that the first spawn
  and then \<open>k\<close> times the sleep, the procedure \<open>f\<close> and a spawn make of the initial one. A
  negative retry count makes no call at all and leaves the host as it was.
\<close>

theorem run_cleanup_before_each_retry:
  "let w' = snd (run h c a retry wait (Some f) \<lparr>env = e, trace = []\<rparr>);
       tr = trace w';
       k = length (filter is_popen tr) - 1
   in tr = (if retry < 0 then []
            else Popen c (arg_vector c a) #
                 concat (replicate k [Sleep wait, Cleanup, Popen c (arg_vector c a)]))
      \<and> length (filter is_cleanup tr) = k
      \<and> int k \<le> max 0 retry
      \<and> env w' =
          (if retry < 0 then e
           else ((\<lambda>x. snd (popen h c (arg_vector c a) (f (sleep h wait x)))) ^^ k)
                  (snd (popen h c (arg_vector c a) e)))"
proof (cases "find (\<lambda>j. returncode (outcome h c (arg_vector c a) wait (Some f) e j) = 0) [0..<Suc (nat retry)]")
  case None
  then show ?thesis
    by (simp add: run_result filter_popen_run_trace filter_cleanup_run_trace Let_def
        env_after_with_cleanup del: upt_Suc)
      (simp add: run_trace_def retry_events_def)
next
  case (Some k)
  then have "k \<le> nat retry" by (simp only: find_upt_Some)
  then show ?thesis using Some
    by (simp add: run_result filter_popen_run_trace filter_cleanup_run_trace Let_def
        env_after_with_cleanup del: upt_Suc)
      (auto simp add: run_trace_def retry_events_def)
qed

text \<open>
  Claim C5. A CommandFailed raised by \<^verbatim>\<open>run\<close> carries the program, the argument vector
  (the program first), and the exit code, standard output and standard error of the last
  attempt, attempt number \<open>retry\<close>; its exit code is not 0. \<^verbatim>\<open>run\<close> is the only place of the
  module that makes a CommandFailed.
\<close>

theorem run_command_failed_fields:
  assumes "fst (run h c a retry wait cleanup \<lparr>env = e, trace = t\<rparr>) = Inl (CommandFailed cf)"
  shows "cmd cf = c \<and> args cf = arg_vector c a \<and> 0 \<le> retry
       \<and> code cf = returncode (outcome h c (arg_vector c a) wait cleanup e (nat retry))
       \<and> out cf = stdout (outcome h c (arg_vector c a) wait cleanup e (nat retry))
       \<and> err cf = stderr (outcome h c (arg_vector c a) wait cleanup e (nat retry))
       \<and> code cf \<noteq> 0"
proof (cases "find (\<lambda>j. returncode (outcome h c (arg_vector c a) wait cleanup e j) = 0) [0..<Suc (nat retry)]")
  case None
  then have "returncode (outcome h c (arg_vector c a) wait cleanup e (nat retry)) \<noteq> 0"
    by (simp only: find_upt_None) simp
  then show ?thesis using assms None
    by (auto simp add: run_result simp del: upt_Suc split: if_splits)
next
  case (Some k)
  then show ?thesis using assms by (simp add: run_result del: upt_Suc split: if_splits)
qed

theorem run_command_failed_fields_witness:
  "fst (run (scripted_host fails_twice) ''/bin/vos'' (Some [''listvol'']) 1 1 None
        \<lparr>env = 0, trace = []\<rparr>) =
     Inl (CommandFailed \<lparr>cmd = ''/bin/vos'', args = [''/bin/vos'', ''listvol''], code = 1,
                          out = ''partial'', err = ''busy''\<rparr>)
   \<and> code \<lparr>cmd = ''/bin/vos'', args = [''/bin/vos'', ''listvol''], code = 1,
            out = ''partial'', err = ''busy''\<rparr> \<noteq> 0"
proof -
  have h: "fst (run (scripted_host fails_twice) ''/bin/vos'' (Some [''listvol'']) 1 1 None
        \<lparr>env = 0, trace = []\<rparr>) =
     Inl (CommandFailed \<lparr>cmd = ''/bin/vos'', args = [''/bin/vos'', ''listvol''], code = 1,
                          out = ''partial'', err = ''busy''\<rparr>)"
    by code_simp
  from run_command_failed_fields[OF h] h show ?thesis by simp
qed


section \<open>Properties of \<^verbatim>\<open>which\<close>\<close>

lemma all_not_slash: "(\<forall>x\<in>set p. x \<noteq> c) = (c \<notin> set p)"
  by blast

lemma head_empty_iff:
  "(rev (dropWhile (\<lambda>x. x \<noteq> CHR ''/'') (rev p)) = []) = (CHR ''/'' \<notin> set p)"
  by (simp add: dropWhile_eq_Nil_conv all_not_slash)

lemma rstrip_nonempty:
  "\<exists>x \<in> set h. x \<noteq> c \<Longrightarrow> rev (dropWhile (\<lambda>x. x = c) (rev h)) \<noteq> []"
  by (simp add: dropWhile_eq_Nil_conv)

lemma dirname_empty_iff: "(dirname p = []) = (CHR ''/'' \<notin> set p)"
proof (cases "CHR ''/'' \<in> set p")
  case True
  define h where "h = rev (dropWhile (\<lambda>x. x \<noteq> CHR ''/'') (rev p))"
  have hne: "h \<noteq> []" using True unfolding h_def by (simp only: head_empty_iff not_not)
  have d: "dirname p = (if \<exists>x \<in> set h. x \<noteq> CHR ''/''
                     then rev (dropWhile (\<lambda>x. x = CHR ''/'') (rev h)) else h)"
    using hne unfolding dirname_def path_split_def Let_def h_def[symmetric] by simp
  have "dirname p \<noteq> []"
  proof (cases "\<exists>x \<in> set h. x \<noteq> CHR ''/''")
    case True
    then show ?thesis using rstrip_nonempty[of h "CHR ''/''"] d by simp
  next
    case False
    then show ?thesis using hne d by simp
  qed
  then show ?thesis using True by simp
next
  case False
  then have "rev (dropWhile (\<lambda>x. x \<noteq> CHR ''/'') (rev p)) = []"
    by (simp only: head_empty_iff not_False_eq_True)
  then have "dirname p = []"
    unfolding dirname_def path_split_def Let_def by simp
  then show ?thesis using False by simp
qed

lemma search_paths_find:
  "search_paths fs program paths =
     map_option (\<lambda>path. path_join (strip_char CHR 0x22 path) program)
       (find (\<lambda>path. is_executable_file fs (path_join (strip_char CHR 0x22 path) program)) paths)"
  by (induction paths) (simp_all add: Let_def)

text \<open>
  Claim C6, as the code has it. With the search path set: a program name that holds a
  \<^verbatim>\<open>/\<close> is returned unchanged when it is an existing executable file, and otherwise the
  result is \<^verbatim>\<open>None\<close>, or AssertionError in strict mode; a name without \<^verbatim>\<open>/\<close> is looked for in
  the entries of the search path followed by the extra paths, in order, each entry
  stripped of the double quotes around it, and the first joined path that is an executable
  file is returned; when there is none the result is \<^verbatim>\<open>None\<close>, or AssertionError in strict
  mode.
\<close>

theorem which_resolves:
  "which fs (Some value) program extra_paths raise_errors =
     (if CHR ''/'' \<in> set program then
        if isfile fs program \<and> x_ok fs program then Inr (Some program)
        else if raise_errors
          then Inl (AssertionError (''Program '' @ quoted program @ '' is not an executable file.''))
          else Inr None
      else
        (case find (\<lambda>path. isfile fs (path_join (strip_char CHR 0x22 path) program)
                         \<and> x_ok fs (path_join (strip_char CHR 0x22 path) program))
                (split_sep CHR '':'' value @ (case extra_paths of None \<Rightarrow> [] | Some extra \<Rightarrow> extra)) of
           Some path \<Rightarrow> Inr (Some (path_join (strip_char CHR 0x22 path) program))
         | None \<Rightarrow>
             if raise_errors
             then Inl (AssertionError (''Could not find '' @ quoted program @ '' in paths '' @
                    str_join '','' (split_sep CHR '':'' value @
                       (case extra_paths of None \<Rightarrow> [] | Some extra \<Rightarrow> extra))))
             else Inr None))"
proof -
  have paths: "(case extra_paths of None \<Rightarrow> split_sep CHR '':'' value
                | Some extra \<Rightarrow> if extra = [] then split_sep CHR '':'' value
                                else split_sep CHR '':'' value @ extra) =
               split_sep CHR '':'' value @ (case extra_paths of None \<Rightarrow> [] | Some extra \<Rightarrow> extra)"
    by (simp split: option.splits)
  show ?thesis
  proof (cases "CHR ''/'' \<in> set program")
    case True
    then have "dirname program \<noteq> []" by (simp add: dirname_empty_iff)
    then show ?thesis using True
      by (simp add: which_def is_executable_file_def)
  next
    case False
    then have d: "dirname program = []" by (simp add: dirname_empty_iff)
    show ?thesis
      unfolding which_def Let_def paths search_paths_find d
      using False
      by (simp add: is_executable_file_def split: option.splits)
  qed
qed

text \<open>
  Claim C6 as stated fails in strict mode: a name without \<^verbatim>\<open>/\<close> that no directory holds
  raises AssertionError, it does not return \<^verbatim>\<open>None\<close>.
\<close>

theorem which_strict_search_counterexample:
  "which ps_filesystem (Some ''/usr/bin:/bin'') ''asetkey'' None True =
     Inl (AssertionError (''Could not find '' @ quoted ''asetkey'' @ '' in paths /usr/bin,/bin''))
   \<and> which ps_filesystem (Some ''/usr/bin:/bin'') ''asetkey'' None True \<noteq> Inr None"
  by code_simp

section \<open>Properties of \<^verbatim>\<open>_linux_unload_module\<close> and \<^verbatim>\<open>_solaris_unload_module\<close>\<close>

lemma run_once_trace:
  assumes "run h c a 0 wait cleanup w = (Inr output, w1)"
  shows "trace w1 = trace w @ [Popen c (arg_vector c a)]"
proof (cases w)
  case (fields e t)
  then show ?thesis using assms
    by (auto simp add: run_result run_trace_def split: if_splits)
qed

text \<open>
  Claim C8. On Linux, when \<^verbatim>\<open>lsmod\<close> has run and no line of its output starts with
  \<^verbatim>\<open>libafs\<close> or \<^verbatim>\<open>openafs\<close> and white space, the unload returns without an error and the
  only command spawned is \<^verbatim>\<open>lsmod\<close>. On Solaris, when the lookup of the module \<^verbatim>\<open>afs\<close>
  returns 0, the unload returns without an error and the only command spawned is the
  \<^verbatim>\<open>modinfo\<close> of the lookup. In both cases the host is left as the listing command left it.
\<close>

theorem unload_module_noop_when_not_loaded:
  "(run h ''/sbin/lsmod'' None 0 1 None w = (Inr output, w1)
      \<and> findall_kmods True output = []
    \<longrightarrow> linux_unload_module h w = (Inr (), w1)
        \<and> trace w1 = trace w @ [Popen ''/sbin/lsmod'' [''/sbin/lsmod'']])
   \<and> (solaris_is_loaded h ''afs'' w = (Inr Zero, w2)
    \<longrightarrow> solaris_unload_module h w = (Inr (), w2)
        \<and> trace w2 = trace w @ [Popen ''/usr/sbin/modinfo'' [''/usr/sbin/modinfo'', ''-w'']])"
proof (intro conjI impI)
  assume a: "run h ''/sbin/lsmod'' None 0 1 None w = (Inr output, w1)
      \<and> findall_kmods True output = []"
  then show "linux_unload_module h w = (Inr (), w1)"
    by (simp add: linux_unload_module_def)
  from a have "trace w1 = trace w @ [Popen ''/sbin/lsmod'' (arg_vector ''/sbin/lsmod'' None)]"
    by (intro run_once_trace[OF conjunct1])
  then show "trace w1 = trace w @ [Popen ''/sbin/lsmod'' [''/sbin/lsmod'']]"
    by (simp add: arg_vector_def)
next
  assume a: "solaris_is_loaded h ''afs'' w = (Inr Zero, w2)"
  then show "solaris_unload_module h w = (Inr (), w2)"
    by (simp add: solaris_unload_module_def)
  from a obtain listing where
    "run h ''/usr/sbin/modinfo'' (Some [''-w'']) 0 1 None w = (Inr listing, w2)"
    by (auto simp: solaris_is_loaded_def split: prod.splits sum.splits)
  then have "trace w2 = trace w @ [Popen ''/usr/sbin/modinfo''
      (arg_vector ''/usr/sbin/modinfo'' (Some [''-w'']))]"
    by (rule run_once_trace)
  then show "trace w2 = trace w @ [Popen ''/usr/sbin/modinfo'' [''/usr/sbin/modinfo'', ''-w'']]"
    by (simp add: arg_vector_def)
qed

theorem unload_module_noop_when_not_loaded_witness:
  "run module_host ''/sbin/lsmod'' None 0 1 None \<lparr>env = 0, trace = []\<rparr> =
     (Inr lsmod_output, \<lparr>env = 1, trace = [Popen ''/sbin/lsmod'' [''/sbin/lsmod'']]\<rparr>)
   \<and> findall_kmods True lsmod_output = []
   \<and> linux_unload_module module_host \<lparr>env = 0, trace = []\<rparr> =
     (Inr (), \<lparr>env = 1, trace = [Popen ''/sbin/lsmod'' [''/sbin/lsmod'']]\<rparr>)
   \<and> solaris_is_loaded module_host ''afs'' \<lparr>env = 0, trace = []\<rparr> =
     (Inr Zero, \<lparr>env = 1, trace = [Popen ''/usr/sbin/modinfo'' [''/usr/sbin/modinfo'', ''-w'']]\<rparr>)
   \<and> solaris_unload_module module_host \<lparr>env = 0, trace = []\<rparr> =
     (Inr (), \<lparr>env = 1, trace = [Popen ''/usr/sbin/modinfo'' [''/usr/sbin/modinfo'', ''-w'']]\<rparr>)"
proof -
  have h1: "run module_host ''/sbin/lsmod'' None 0 1 None \<lparr>env = 0, trace = []\<rparr> =
     (Inr lsmod_output, \<lparr>env = 1, trace = [Popen ''/sbin/lsmod'' [''/sbin/lsmod'']]\<rparr>)
     \<and> findall_kmods True lsmod_output = []"
    by code_simp
  have h2: "solaris_is_loaded module_host ''afs'' \<lparr>env = 0, trace = []\<rparr> =
     (Inr Zero, \<lparr>env = 1, trace = [Popen ''/usr/sbin/modinfo'' [''/usr/sbin/modinfo'', ''-w'']]\<rparr>)"
    by code_simp
  from unload_module_noop_when_not_loaded[of module_host "\<lparr>env = 0, trace = []\<rparr>"
      lsmod_output "\<lparr>env = 1, trace = [Popen ''/sbin/lsmod'' [''/sbin/lsmod'']]\<rparr>"
      "\<lparr>env = 1, trace = [Popen ''/usr/sbin/modinfo'' [''/usr/sbin/modinfo'', ''-w'']]\<rparr>"]
    h1 h2
  show ?thesis by simp
qed

section \<open>Properties of \<^verbatim>\<open>get_running\<close>\<close>

lemma split_whitespace_spaces:
  "list_all is_space s \<Longrightarrow> split_whitespace s = []"
  by (induction s) simp_all

lemma collect_procs_IndexError:
  "\<exists>line \<in> set rest. length line \<le> column \<or> list_all is_space (drop column line) \<Longrightarrow>
   collect_procs column rest procs = Inl IndexError"
proof (induction rest arbitrary: procs)
  case Nil
  then show ?case by simp
next
  case (Cons line rest)
  show ?case
  proof (cases "length line \<le> column \<or> list_all is_space (drop column line)")
    case True
    then show ?thesis
      by (auto simp: Let_def is_space_def split_whitespace_spaces split: list.splits)
  next
    case False
    then have "\<exists>l \<in> set rest. length l \<le> column \<or> list_all is_space (drop column l)"
      using Cons.prems by auto
    then have "\<And>procs. collect_procs column rest procs = Inl IndexError"
      by (rule Cons.IH)
    then show ?thesis
      by (simp add: Let_def split: list.splits)
  qed
qed

text \<open>
  Claim C10. When \<^verbatim>\<open>ps\<close> is found and has run, its first line holds \<^verbatim>\<open>COMMAND\<close> at offset
  \<open>column\<close>, and some later line is no longer than \<open>column\<close> (its command field is empty) or
  has only white space from \<open>column\<close> on, \<^verbatim>\<open>get_running\<close> raises IndexError: the line is
  not skipped. The first case fails in \<^verbatim>\<open>cmd_line[0]\<close>, the second in \<^verbatim>\<open>cmd_line.split()[0]\<close>.
\<close>

theorem get_running_short_line_raises:
  assumes "which fs environ_PATH ''ps'' None False = Inr (Some ps)"
    and "run h ps (Some [''ax'']) 0 1 None w = (Inr output, w1)"
    and "splitlines output = header # rest"
    and "str_index ''COMMAND'' header = Some column"
    and "\<exists>line \<in> set rest. length line \<le> column \<or> list_all is_space (drop column line)"
  shows "get_running fs environ_PATH h w = (Inl IndexError, w1)"
  using assms
  by (simp add: get_running_def parse_ps_def collect_procs_IndexError)

theorem get_running_short_line_raises_witness:
  "which ps_filesystem (Some ''/usr/bin:/bin'') ''ps'' None False = Inr (Some ''/bin/ps'')
   \<and> run (scripted_host (\<lambda>i. \<lparr>returncode = 0, stdout = ps_output, stderr = []\<rparr>))
        ''/bin/ps'' (Some [''ax'']) 0 1 None \<lparr>env = 0, trace = []\<rparr> =
       (Inr ps_output, \<lparr>env = 1, trace = [Popen ''/bin/ps'' [''/bin/ps'', ''ax'']]\<rparr>)
   \<and> splitlines ps_output =
       [''  PID TTY      STAT   TIME COMMAND'',
        ''    1 ?        Ss     0:01 /sbin/init splash'',
        ''    2 ?        S      0:00 [kthreadd]'',
        ''  811 ?        Z      0:00'',
        '' 1042 pts/0    R+     0:00 ps ax'']
   \<and> str_index ''COMMAND'' ''  PID TTY      STAT   TIME COMMAND'' = Some 27
   \<and> length ''  811 ?        Z      0:00'' \<le> (27::nat)
   \<and> get_running ps_filesystem (Some ''/usr/bin:/bin'')
        (scripted_host (\<lambda>i. \<lparr>returncode = 0, stdout = ps_output, stderr = []\<rparr>))
        \<lparr>env = 0, trace = []\<rparr> =
       (Inl IndexError, \<lparr>env = 1, trace = [Popen ''/bin/ps'' [''/bin/ps'', ''ax'']]\<rparr>)"
proof -
  have h1: "which ps_filesystem (Some ''/usr/bin:/bin'') ''ps'' None False = Inr (Some ''/bin/ps'')"
    by code_simp
  have h2: "run (scripted_host (\<lambda>i. \<lparr>returncode = 0, stdout = ps_output, stderr = []\<rparr>))
        ''/bin/ps'' (Some [''ax'']) 0 1 None \<lparr>env = 0, trace = []\<rparr> =
       (Inr ps_output, \<lparr>env = 1, trace = [Popen ''/bin/ps'' [''/bin/ps'', ''ax'']]\<rparr>)"
    by code_simp
  have h3: "splitlines ps_output =
       ''  PID TTY      STAT   TIME COMMAND'' #
       [''    1 ?        Ss     0:01 /sbin/init splash'',
        ''    2 ?        S      0:00 [kthreadd]'',
        ''  811 ?        Z      0:00'',
        '' 1042 pts/0    R+     0:00 ps ax'']"
    by code_simp
  have h4: "str_index ''COMMAND'' ''  PID TTY      STAT   TIME COMMAND'' = Some 27"
    by code_simp
  have h5: "\<exists>line \<in> set [''    1 ?        Ss     0:01 /sbin/init splash'',
        ''    2 ?        S      0:00 [kthreadd]'',
        ''  811 ?        Z      0:00'',
        '' 1042 pts/0    R+     0:00 ps ax'']. length line \<le> 27 \<or> list_all is_space (drop 27 line)"
    by simp
  from get_running_short_line_raises[OF h1 h2 h3 h4 h5] h1 h2 h3 h4 show ?thesis
    by simp
qed


section \<open>Properties of \<^verbatim>\<open>symlink\<close>\<close>

lemma lookup_nodes_update: "lookup (fs\<lparr>nodes := al\<rparr>) = map_of al"
  by (rule ext) (simp add: lookup_def)

lemma lookup_update:
  "lookup (fs\<lparr>nodes := AList.update k v (nodes fs)\<rparr>) = (lookup fs)(k \<mapsto> v)"
  by (rule ext) (simp add: lookup_def update_conv')

lemma lookup_delete:
  "lookup (fs\<lparr>nodes := AList.delete k (nodes fs)\<rparr>) = (lookup fs)(k := None)"
  by (rule ext) (simp add: lookup_def delete_conv')

lemma follow_not_link:
  "lookup fs p = Some nd \<Longrightarrow> \<forall>target. nd \<noteq> SymbolicLink target \<Longrightarrow>
   follow fs n p = Some (p, nd)"
  by (cases n; cases nd) simp_all

lemma follow_absent: "lookup fs p = None \<Longrightarrow> follow fs n p = None"
  by (cases n) simp_all

lemma follow_cong:
  "lookup fs1 = lookup fs2 \<Longrightarrow> follow fs1 n p = follow fs2 n p"
  by (induction n arbitrary: p) (simp_all split: option.splits node.splits)

lemma isfile_cong: "lookup fs1 = lookup fs2 \<Longrightarrow> isfile fs1 p = isfile fs2 p"
  by (simp add: isfile_def stat_def follow_cong[of fs1 fs2])

lemma islink_cong: "lookup fs1 = lookup fs2 \<Longrightarrow> islink fs1 p = islink fs2 p"
  by (simp add: islink_def)

lemma path_exists_cong: "lookup fs1 = lookup fs2 \<Longrightarrow> path_exists fs1 p = path_exists fs2 p"
  by (simp add: path_exists_def stat_def follow_cong[of fs1 fs2])

lemma isfile_regular: "lookup fs p = Some RegularFile \<Longrightarrow> isfile fs p"
  by (simp add: isfile_def stat_def follow_not_link)

lemma isdir_directory: "lookup fs p = Some Directory \<Longrightarrow> isdir fs p"
  by (simp add: isdir_def stat_def follow_not_link)

lemma not_isdir_regular: "lookup fs p = Some RegularFile \<Longrightarrow> \<not> isdir fs p"
  by (simp add: isdir_def stat_def follow_not_link)

lemma not_isdir_special: "lookup fs p = Some Special \<Longrightarrow> \<not> isdir fs p"
  by (simp add: isdir_def stat_def follow_not_link)

lemma not_isdir_absent: "lookup fs p = None \<Longrightarrow> \<not> isdir fs p"
  by (simp add: isdir_def stat_def follow_absent)

lemma not_isfile_absent: "lookup fs p = None \<Longrightarrow> \<not> isfile fs p"
  by (simp add: isfile_def stat_def follow_absent)

lemma not_isfile_special: "lookup fs p = Some Special \<Longrightarrow> \<not> isfile fs p"
  by (simp add: isfile_def stat_def follow_not_link)

lemma exists_not_link:
  "\<not> islink fs p \<Longrightarrow> path_exists fs p = (lookup fs p \<noteq> None)"
proof (cases "lookup fs p")
  case None
  then show ?thesis by (simp add: path_exists_def stat_def follow_absent)
next
  case (Some nd)
  assume "\<not> islink fs p"
  then have "\<forall>target. nd \<noteq> SymbolicLink target" using Some by (auto simp: islink_def)
  then show ?thesis using Some by (simp add: path_exists_def stat_def follow_not_link)
qed


lemma symlink_dst_exists:
  "isfile fs src \<Longrightarrow> path_exists fs dst \<Longrightarrow> \<not> islink fs dst \<Longrightarrow>
   symlink src dst fs = Inl (AssertionError (''Failed to make symlink: dst '' @ dst @ '' exists''))"
  by (simp add: symlink_def)

lemma symlink_creates:
  assumes "isfile fs src" and "lookup fs dst = None \<or> islink fs dst"
  shows "\<exists>fs'. symlink src dst fs = Inr fs'
           \<and> lookup fs' = (lookup fs)(dst \<mapsto> SymbolicLink src) \<and> x_ok fs' = x_ok fs"
proof (cases "islink fs dst")
  case True
  then obtain target where t: "lookup fs dst = Some (SymbolicLink target)"
    by (auto simp: islink_def split: option.splits node.splits)
  then have rm: "os_remove dst fs = Inr (fs\<lparr>nodes := AList.delete dst (nodes fs)\<rparr>)"
    by (simp add: os_remove_def)
  have free: "lookup (fs\<lparr>nodes := AList.delete dst (nodes fs)\<rparr>) dst = None"
    by (simp add: lookup_delete)
  let ?fs1 = "fs\<lparr>nodes := AList.delete dst (nodes fs)\<rparr>"
  have mk: "os_symlink src dst ?fs1 =
      Inr (?fs1\<lparr>nodes := AList.update dst (SymbolicLink src) (nodes ?fs1)\<rparr>)"
    using free by (simp add: os_symlink_def)
  have res: "symlink src dst fs = Inr (?fs1\<lparr>nodes := AList.update dst (SymbolicLink src) (nodes ?fs1)\<rparr>)"
    using assms(1) True rm mk by (simp add: symlink_def)
  have "lookup (?fs1\<lparr>nodes := AList.update dst (SymbolicLink src) (nodes ?fs1)\<rparr>) =
        (lookup fs)(dst \<mapsto> SymbolicLink src)"
    by (rule ext) (simp add: lookup_nodes_update update_conv' delete_conv' lookup_def)
  then show ?thesis using res by simp
next
  case False
  then have none: "lookup fs dst = None" using assms(2) by simp
  then have ne: "\<not> path_exists fs dst" using False by (simp add: exists_not_link)
  have mk: "os_symlink src dst fs = Inr (fs\<lparr>nodes := AList.update dst (SymbolicLink src) (nodes fs)\<rparr>)"
    using none by (simp add: os_symlink_def)
  have "symlink src dst fs = Inr (fs\<lparr>nodes := AList.update dst (SymbolicLink src) (nodes fs)\<rparr>)"
    using assms(1) False ne mk by (simp add: symlink_def)
  then show ?thesis by (simp add: lookup_update)
qed









section \<open>Properties of \<^verbatim>\<open>_so_symlinks\<close>\<close>

lemma replaceable_not_regular: "replaceable fs p \<Longrightarrow> lookup fs p \<noteq> Some RegularFile"
  by (auto simp: replaceable_def islink_def)

lemma replaceable_update:
  "lookup fs' = (lookup fs)(l \<mapsto> SymbolicLink f) \<Longrightarrow> replaceable fs p \<Longrightarrow> replaceable fs' p"
  by (auto simp: replaceable_def islink_def)

lemma symlink_step:
  assumes "lookup fs f = Some RegularFile" and "replaceable fs l"
  shows "\<exists>fs'. symlink f l fs = Inr fs' \<and> lookup fs' = (lookup fs)(l \<mapsto> SymbolicLink f)
           \<and> x_ok fs' = x_ok fs \<and> lookup fs' f = Some RegularFile"
proof -
  have "isfile fs f" using assms(1) by (rule isfile_regular)
  then obtain fs' where s: "symlink f l fs = Inr fs'"
      and l: "lookup fs' = (lookup fs)(l \<mapsto> SymbolicLink f)" and x: "x_ok fs' = x_ok fs"
    using assms(2) symlink_creates[of fs f l] unfolding replaceable_def by blast
  have "l \<noteq> f" using assms replaceable_not_regular by blast
  then have "lookup fs' f = Some RegularFile" using l assms(1) by simp
  then show ?thesis using s l x by blast
qed

lemma three_symlinks:
  assumes f: "lookup fs f = Some RegularFile"
    and r1: "replaceable fs l1" and r2: "replaceable fs l2" and r3: "replaceable fs l3"
  shows "\<exists>fs1 fs2 fs3. symlink f l1 fs = Inr fs1 \<and> symlink f l2 fs1 = Inr fs2
           \<and> symlink f l3 fs2 = Inr fs3 \<and> x_ok fs3 = x_ok fs
           \<and> lookup fs3 = (lookup fs)(l1 \<mapsto> SymbolicLink f, l2 \<mapsto> SymbolicLink f,
                                         l3 \<mapsto> SymbolicLink f)"
proof -
  obtain fs1 where s1: "symlink f l1 fs = Inr fs1"
      and k1: "lookup fs1 = (lookup fs)(l1 \<mapsto> SymbolicLink f)"
      and x1: "x_ok fs1 = x_ok fs" and f1: "lookup fs1 f = Some RegularFile"
    using symlink_step[OF f r1] by blast
  have r21: "replaceable fs1 l2" using k1 r2 by (rule replaceable_update)
  have r31: "replaceable fs1 l3" using k1 r3 by (rule replaceable_update)
  obtain fs2 where s2: "symlink f l2 fs1 = Inr fs2"
      and k2: "lookup fs2 = (lookup fs1)(l2 \<mapsto> SymbolicLink f)"
      and x2: "x_ok fs2 = x_ok fs1" and f2: "lookup fs2 f = Some RegularFile"
    using symlink_step[OF f1 r21] by blast
  have r32: "replaceable fs2 l3" using k2 r31 by (rule replaceable_update)
  obtain fs3 where s3: "symlink f l3 fs2 = Inr fs3"
      and k3: "lookup fs3 = (lookup fs2)(l3 \<mapsto> SymbolicLink f)"
      and x3: "x_ok fs3 = x_ok fs2"
    using symlink_step[OF f2 r32] by blast
  have "lookup fs3 = (lookup fs)(l1 \<mapsto> SymbolicLink f, l2 \<mapsto> SymbolicLink f,
                                 l3 \<mapsto> SymbolicLink f)"
    using k1 k2 k3 by simp
  moreover have "x_ok fs3 = x_ok fs" using x1 x2 x3 by simp
  ultimately show ?thesis using s1 s2 s3 by blast
qed

lemma so_links_match:
  "so_match f = Some (so, x, y, z) \<Longrightarrow>
   so_links f = [so @ ''.'' @ x @ ''.'' @ y, so @ ''.'' @ x, so]"
  by (simp add: so_links_def)

lemma so_links_no_match: "so_match f = None \<Longrightarrow> so_links f = []"
  by (simp add: so_links_def)


lemma loop_skip:
  "isdir fs (path_join path d) \<or> islink fs (path_join path d)
     \<or> so_match (path_join path d) = None \<Longrightarrow>
   so_symlinks_loop path (d # rest) fs = so_symlinks_loop path rest fs"
  by (auto simp: Let_def)

lemma owners_skip:
  assumes "isdir fs (path_join path d) \<or> islink fs (path_join path d)
     \<or> so_match (path_join path d) = None"
  shows "owners fs path (d # rest) p = owners fs path rest p"
proof -
  have "\<not> (lookup fs (path_join path d) = Some RegularFile
            \<and> p \<in> set (so_links (path_join path d)))"
    using assms not_isdir_regular[of fs "path_join path d"]
    by (auto simp: islink_def so_links_no_match)
  then show ?thesis by (simp add: owners_def)
qed

lemma loop_link:
  assumes "\<not> isdir fs (path_join path d)" and "\<not> islink fs (path_join path d)"
    and "so_match (path_join path d) = Some (so, x, y, z)"
    and "symlink (path_join path d) (so @ ''.'' @ x @ ''.'' @ y) fs = Inr fs1"
    and "symlink (path_join path d) (so @ ''.'' @ x) fs1 = Inr fs2"
    and "symlink (path_join path d) so fs2 = Inr fs3"
  shows "so_symlinks_loop path (d # rest) fs = so_symlinks_loop path rest fs3"
  using assms by (simp add: Let_def)

lemma entry_is_regular:
  assumes "\<not> isdir fs f" and "\<not> islink fs f"
    and "lookup fs f \<noteq> Some Special" and "lookup fs f \<noteq> None"
  shows "lookup fs f = Some RegularFile"
proof -
  obtain nd where nd: "lookup fs f = Some nd" using assms(4) by blast
  show ?thesis
  proof (cases nd)
    case RegularFile
    then show ?thesis using nd by simp
  next
    case Directory
    then show ?thesis using nd assms(1) isdir_directory by blast
  next
    case Special
    then show ?thesis using nd assms(3) by simp
  next
    case (SymbolicLink t)
    then show ?thesis using nd assms(2) by (simp add: islink_def)
  qed
qed

lemma so_symlinks_loop_result:
  assumes "\<forall>d\<in>set ds. so_match (path_join path d) \<noteq> None \<longrightarrow>
              lookup fs (path_join path d) \<noteq> Some Special \<and> lookup fs (path_join path d) \<noteq> None"
    and "\<forall>d\<in>set ds. lookup fs (path_join path d) = Some RegularFile \<longrightarrow>
              (\<forall>l\<in>set (so_links (path_join path d)). replaceable fs l)"
  shows "\<exists>fs'. so_symlinks_loop path ds fs = Inr fs' \<and> x_ok fs' = x_ok fs \<and>
           (\<forall>p. lookup fs' p =
              (case owners fs path ds p of
                 [] \<Rightarrow> lookup fs p
               | d # os \<Rightarrow> Some (SymbolicLink (path_join path (last (d # os))))))"
  using assms
proof (induction ds arbitrary: fs)
  case Nil
  then show ?case by (simp add: owners_def)
next
  case (Cons d rest)
  let ?f = "path_join path d"
  have A1: "\<forall>d\<in>set rest. so_match (path_join path d) \<noteq> None \<longrightarrow>
              lookup fs (path_join path d) \<noteq> Some Special \<and> lookup fs (path_join path d) \<noteq> None"
    using Cons.prems(1) by simp
  have A2: "\<forall>d\<in>set rest. lookup fs (path_join path d) = Some RegularFile \<longrightarrow>
              (\<forall>l\<in>set (so_links (path_join path d)). replaceable fs l)"
    using Cons.prems(2) by simp
  show ?case
  proof (cases "isdir fs ?f \<or> islink fs ?f \<or> so_match ?f = None")
    case True
    have "\<exists>fs'. so_symlinks_loop path rest fs = Inr fs' \<and> x_ok fs' = x_ok fs \<and>
           (\<forall>p. lookup fs' p =
              (case owners fs path rest p of
                 [] \<Rightarrow> lookup fs p
               | d # os \<Rightarrow> Some (SymbolicLink (path_join path (last (d # os))))))"
      using A1 A2 by (rule Cons.IH)
    then show ?thesis
      by (simp only: loop_skip[OF True] owners_skip[OF True])
  next
    case False
    then have nd: "\<not> isdir fs ?f" and nl: "\<not> islink fs ?f" by simp_all
    from False obtain so x y z where m: "so_match ?f = Some (so, x, y, z)"
      by (cases "so_match ?f") auto
    let ?l1 = "so @ ''.'' @ x @ ''.'' @ y" and ?l2 = "so @ ''.'' @ x"
    let ?L = "SymbolicLink ?f"
    have links: "so_links ?f = [?l1, ?l2, so]" using m by (rule so_links_match)
    have "lookup fs ?f \<noteq> Some Special \<and> lookup fs ?f \<noteq> None"
      using Cons.prems(1) m by simp
    then have reg: "lookup fs ?f = Some RegularFile"
      using nd nl entry_is_regular by blast
    have r: "replaceable fs ?l1" "replaceable fs ?l2" "replaceable fs so"
      using Cons.prems(2) reg links by simp_all
    obtain fs1 fs2 fs3 where s: "symlink ?f ?l1 fs = Inr fs1" "symlink ?f ?l2 fs1 = Inr fs2"
        "symlink ?f so fs2 = Inr fs3" and x3: "x_ok fs3 = x_ok fs"
        and k3: "lookup fs3 = (lookup fs)(?l1 \<mapsto> ?L, ?l2 \<mapsto> ?L, so \<mapsto> ?L)"
      using three_symlinks[OF reg r] by blast
    have step: "so_symlinks_loop path (d # rest) fs = so_symlinks_loop path rest fs3"
      using nd nl m s by (rule loop_link)
    have look3: "\<And>q. lookup fs3 q = (if q \<in> {?l1, ?l2, so} then Some ?L else lookup fs q)"
      using k3 by auto
    have same_reg: "\<And>q. (lookup fs3 q = Some RegularFile) = (lookup fs q = Some RegularFile)"
    proof -
      fix q
      show "(lookup fs3 q = Some RegularFile) = (lookup fs q = Some RegularFile)"
      proof (cases "q \<in> {?l1, ?l2, so}")
        case True
        then have "replaceable fs q" using r by auto
        then have "lookup fs q \<noteq> Some RegularFile" by (rule replaceable_not_regular)
        then show ?thesis using True look3 by simp
      next
        case False
        then show ?thesis using look3 by simp
      qed
    qed
    have repl3: "\<And>q. replaceable fs q \<Longrightarrow> replaceable fs3 q"
      using look3 by (auto simp: replaceable_def islink_def)
    have A1': "\<forall>d\<in>set rest. so_match (path_join path d) \<noteq> None \<longrightarrow>
              lookup fs3 (path_join path d) \<noteq> Some Special \<and> lookup fs3 (path_join path d) \<noteq> None"
      using A1 look3 by simp
    have A2': "\<forall>d\<in>set rest. lookup fs3 (path_join path d) = Some RegularFile \<longrightarrow>
              (\<forall>l\<in>set (so_links (path_join path d)). replaceable fs3 l)"
      using A2 same_reg repl3 by blast
    have "\<exists>fs'. so_symlinks_loop path rest fs3 = Inr fs' \<and> x_ok fs' = x_ok fs3 \<and>
           (\<forall>p. lookup fs' p =
              (case owners fs3 path rest p of
                 [] \<Rightarrow> lookup fs3 p
               | d # os \<Rightarrow> Some (SymbolicLink (path_join path (last (d # os))))))"
      using A1' A2' by (rule Cons.IH)
    then obtain fs' where res: "so_symlinks_loop path rest fs3 = Inr fs'"
        and x': "x_ok fs' = x_ok fs3"
        and look': "\<And>p. lookup fs' p =
              (case owners fs3 path rest p of
                 [] \<Rightarrow> lookup fs3 p
               | d # os \<Rightarrow> Some (SymbolicLink (path_join path (last (d # os)))))"
      by blast
    have own_rest: "\<And>p. owners fs3 path rest p = owners fs path rest p"
      by (simp add: owners_def same_reg)
    have own_d: "\<And>p. owners fs path (d # rest) p =
        (if p \<in> {?l1, ?l2, so} then d # owners fs path rest p else owners fs path rest p)"
      using reg links by (auto simp: owners_def)
    have "\<And>p. lookup fs' p =
              (case owners fs path (d # rest) p of
                 [] \<Rightarrow> lookup fs p
               | d # os \<Rightarrow> Some (SymbolicLink (path_join path (last (d # os)))))"
    proof -
      fix p
      show "lookup fs' p =
              (case owners fs path (d # rest) p of
                 [] \<Rightarrow> lookup fs p
               | d # os \<Rightarrow> Some (SymbolicLink (path_join path (last (d # os)))))"
      proof (cases "owners fs path rest p")
        case Nil
        then show ?thesis using look'[of p] own_rest[of p] own_d[of p] look3[of p]
          by (cases "p \<in> {?l1, ?l2, so}") simp_all
      next
        case (Cons e es)
        then show ?thesis using look'[of p] own_rest[of p] own_d[of p]
          by (cases "p \<in> {?l1, ?l2, so}") simp_all
      qed
    qed
    then show ?thesis using step res x' x3 by simp
  qed
qed


lemma listdir_entry_exists:
  assumes "listdir fs path = Inr ds" and "d \<in> set ds"
  shows "lookup fs (path_join path d) \<noteq> None"
proof -
  have "ds = remdups (map basename
             (filter (\<lambda>p. basename p \<noteq> [] \<and> path_join path (basename p) = p)
                (map fst (nodes fs))))"
    using assms(1) by (simp add: listdir_def split: if_splits)
  then obtain p where "p \<in> fst ` set (nodes fs)" and "path_join path d = p"
    using assms(2) by auto
  then show ?thesis by (simp add: lookup_def map_of_eq_None_iff)
qed

lemma path_join_absolute:
  "path \<noteq> [] \<and> hd path = CHR ''/'' \<Longrightarrow>
   path_join path d \<noteq> [] \<and> hd (path_join path d) = CHR ''/''"
  by (simp add: path_join_def)

lemma stat_link_to_regular:
  assumes "lookup fs l = Some (SymbolicLink t)" and "t \<noteq> [] \<and> hd t = CHR ''/''"
    and "lookup fs t = Some RegularFile"
  shows "stat fs l = Some (t, RegularFile)"
proof -
  have forty: "(40::nat) = Suc 39" by simp
  have "follow fs (Suc 39) l = follow fs 39 (path_join (dirname l) t)"
    using assms(1) by (simp only: follow.simps option.case node.case)
  moreover have "path_join (dirname l) t = t" using assms(2) by (simp add: path_join_def)
  moreover have "follow fs 39 t = Some (t, RegularFile)"
    using assms(3) by (simp add: follow_not_link)
  ultimately show ?thesis unfolding stat_def forty by simp
qed

lemma owner_is_regular:
  "e \<in> set (owners fs path ds l) \<Longrightarrow>
   e \<in> set ds \<and> lookup fs (path_join path e) = Some RegularFile
   \<and> l \<in> set (so_links (path_join path e))"
  by (simp add: owners_def)


lemma dot_not_digit: "\<not> is_digit CHR ''.''"
  by (simp add: is_digit_def)

lemma LF_not_digit: "is_digit ch \<Longrightarrow> ch \<noteq> LF"
  by (auto simp: is_digit_def LF_def)

lemma take_number_rev:
  assumes "version_number n"
  shows "take_number (rev n @ CHR ''.'' # rest) = Some (n, rest)"
proof -
  have d: "\<And>ch. ch \<in> set (rev n) \<Longrightarrow> is_digit ch"
    using assms by (simp add: version_number_def list_all_iff)
  have "takeWhile is_digit (rev n @ CHR ''.'' # rest) =
        rev n @ takeWhile is_digit (CHR ''.'' # rest)"
    using d by (rule takeWhile_append2)
  then have t: "takeWhile is_digit (rev n @ CHR ''.'' # rest) = rev n"
    by (simp add: dot_not_digit)
  have "dropWhile is_digit (rev n @ CHR ''.'' # rest) = dropWhile is_digit (CHR ''.'' # rest)"
    using d by (rule dropWhile_append2)
  then have r: "dropWhile is_digit (rev n @ CHR ''.'' # rest) = CHR ''.'' # rest"
    by (simp add: dot_not_digit)
  have "n \<noteq> []" using assms by (simp add: version_number_def)
  then show ?thesis unfolding take_number_def t r Let_def by simp
qed

lemma so_match_versioned:
  assumes "version_number x" and "version_number y" and "version_number z"
    and "pre \<noteq> []" and "LF \<notin> set pre"
  shows "so_match (pre @ ''.so.'' @ x @ ''.'' @ y @ ''.'' @ z) = Some (pre @ ''.so'', x, y, z)"
proof -
  let ?r3 = "''os.'' @ rev pre"
  let ?r2 = "rev x @ CHR ''.'' # ?r3"
  let ?r1 = "rev y @ CHR ''.'' # ?r2"
  let ?r = "rev z @ CHR ''.'' # ?r1"
  have r: "rev (pre @ ''.so.'' @ x @ ''.'' @ y @ ''.'' @ z) = ?r" by simp
  obtain c cs where z: "rev z = c # cs"
    using assms(3) by (cases "rev z") (simp_all add: version_number_def)
  then have "c \<in> set z" by (metis list.set_intros(1) set_rev)
  then have "is_digit c" using assms(3) by (simp add: version_number_def list_all_iff)
  then have "c \<noteq> LF" by (rule LF_not_digit)
  then have strip: "(case ?r of [] \<Rightarrow> ?r | ch # chs \<Rightarrow> if ch = LF then chs else ?r) = ?r"
    using z by simp
  have n1: "take_number ?r = Some (z, ?r1)" using assms(3) by (rule take_number_rev)
  have n2: "take_number ?r1 = Some (y, ?r2)" using assms(2) by (rule take_number_rev)
  have n3: "take_number ?r2 = Some (x, ?r3)" using assms(1) by (rule take_number_rev)
  have ok: "take 3 ?r3 = ''os.'' \<and> 3 < length ?r3 \<and> LF \<notin> set ?r3"
    using assms(4,5) by (simp add: LF_def)
  have restored: "rev ?r3 = pre @ ''.so''" by simp
  show ?thesis
    by (simp only: so_match_def r Let_def strip n1 n2 n3 option.case prod.case ok
        restored if_True simp_thms)
qed

lemma path_join_relative:
  assumes "name \<noteq> []" and "hd name \<noteq> CHR ''/''"
  shows "path_join path (name @ more_text) =
         (if path = [] \<or> last path = CHR ''/'' then path else path @ ''/'') @ name @ more_text"
  using assms by (simp add: path_join_def)

lemma so_links_versioned_name:
  assumes "version_number x" and "version_number y" and "version_number z"
    and "base \<noteq> []" and "hd base \<noteq> CHR ''/''" and "LF \<notin> set base" and "LF \<notin> set path"
  shows "so_links (path_join path (versioned_name base x y z)) =
           [path_join path (base @ ''.so.'' @ x @ ''.'' @ y),
            path_join path (base @ ''.so.'' @ x),
            path_join path (base @ ''.so'')]"
proof -
  define pre where "pre = (if path = [] \<or> last path = CHR ''/'' then path else path @ ''/'') @ base"
  have j: "\<And>t. path_join path (base @ t) =
      (if path = [] \<or> last path = CHR ''/'' then path else path @ ''/'') @ base @ t"
    using assms(4,5) by (rule path_join_relative)
  have pre_ne: "pre \<noteq> []" using assms(4) by (simp add: pre_def)
  have pre_lf: "LF \<notin> set pre" using assms(6,7) by (simp add: pre_def LF_def)
  have f: "path_join path (versioned_name base x y z) = pre @ ''.so.'' @ x @ ''.'' @ y @ ''.'' @ z"
    unfolding versioned_name_def j pre_def by simp
  have m: "so_match (pre @ ''.so.'' @ x @ ''.'' @ y @ ''.'' @ z) = Some (pre @ ''.so'', x, y, z)"
    using assms(1,2,3) pre_ne pre_lf by (rule so_match_versioned)
  have l1: "path_join path (base @ ''.so.'' @ x @ ''.'' @ y) = (pre @ ''.so'') @ ''.'' @ x @ ''.'' @ y"
    unfolding j pre_def by simp
  have l2: "path_join path (base @ ''.so.'' @ x) = (pre @ ''.so'') @ ''.'' @ x"
    unfolding j pre_def by simp
  have l3: "path_join path (base @ ''.so'') = pre @ ''.so''"
    unfolding j pre_def by simp
  show ?thesis unfolding f so_links_match[OF m] l1 l2 l3 by simp
qed

lemma so_symlinks_links_made:
  assumes "listdir fs path = Inr dirents"
    and "path \<noteq> [] \<and> hd path = CHR ''/''"
    and "\<forall>d\<in>set dirents. so_match (path_join path d) \<noteq> None \<longrightarrow>
           lookup fs (path_join path d) \<noteq> Some Special"
    and "\<forall>d\<in>set dirents. lookup fs (path_join path d) = Some RegularFile \<longrightarrow>
           (\<forall>l\<in>set (so_links (path_join path d)). replaceable fs l)"
  shows "(\<exists>fs'. so_symlinks path fs = Inr fs'
          \<and> (\<forall>l. owners fs path dirents l \<noteq> [] \<longrightarrow>
                lookup fs' l =
                  Some (SymbolicLink (path_join path (last (owners fs path dirents l))))
                \<and> stat fs' l =
                  Some (path_join path (last (owners fs path dirents l)), RegularFile))
          \<and> (\<forall>d\<in>set dirents. lookup fs (path_join path d) = Some RegularFile \<longrightarrow>
                (\<forall>l\<in>set (so_links (path_join path d)).
                   owners fs path dirents l = [d] \<longrightarrow>
                     lookup fs' l = Some (SymbolicLink (path_join path d))
                     \<and> stat fs' l = Some (path_join path d, RegularFile)))
          \<and> (\<forall>p. owners fs path dirents p = [] \<longrightarrow> lookup fs' p = lookup fs p))
       \<and> (\<forall>base x y z.
             version_number x \<and> version_number y \<and> version_number z \<and> base \<noteq> []
             \<and> hd base \<noteq> CHR ''/'' \<and> LF \<notin> set base \<and> LF \<notin> set path \<longrightarrow>
             so_links (path_join path (versioned_name base x y z)) =
               [path_join path (base @ ''.so.'' @ x @ ''.'' @ y),
                path_join path (base @ ''.so.'' @ x),
                path_join path (base @ ''.so'')])"
proof -
  have A1: "\<forall>d\<in>set dirents. so_match (path_join path d) \<noteq> None \<longrightarrow>
              lookup fs (path_join path d) \<noteq> Some Special \<and> lookup fs (path_join path d) \<noteq> None"
    using assms(3) listdir_entry_exists[OF assms(1)] by blast
  have "\<exists>fs'. so_symlinks_loop path dirents fs = Inr fs' \<and> x_ok fs' = x_ok fs \<and>
           (\<forall>p. lookup fs' p =
              (case owners fs path dirents p of
                 [] \<Rightarrow> lookup fs p
               | d # os \<Rightarrow> Some (SymbolicLink (path_join path (last (d # os))))))"
    using A1 assms(4) by (rule so_symlinks_loop_result)
  then obtain fs' where loop: "so_symlinks_loop path dirents fs = Inr fs'"
      and look: "\<And>p. lookup fs' p =
              (case owners fs path dirents p of
                 [] \<Rightarrow> lookup fs p
               | d # os \<Rightarrow> Some (SymbolicLink (path_join path (last (d # os)))))"
    by blast
  have res: "so_symlinks path fs = Inr fs'"
    using assms(1) loop by (simp add: so_symlinks_def)
  have unowned: "\<And>p. owners fs path dirents p = [] \<Longrightarrow> lookup fs' p = lookup fs p"
    using look by simp
  have owned: "\<And>l. owners fs path dirents l \<noteq> [] \<Longrightarrow>
      lookup fs' l = Some (SymbolicLink (path_join path (last (owners fs path dirents l))))
      \<and> stat fs' l = Some (path_join path (last (owners fs path dirents l)), RegularFile)"
  proof -
    fix l
    assume ne: "owners fs path dirents l \<noteq> []"
    let ?e = "last (owners fs path dirents l)"
    have lk: "lookup fs' l = Some (SymbolicLink (path_join path ?e))"
      using ne look[of l] by (cases "owners fs path dirents l") simp_all
    have "?e \<in> set (owners fs path dirents l)" using ne by simp
    then have e: "?e \<in> set dirents" "lookup fs (path_join path ?e) = Some RegularFile"
      using owner_is_regular by blast+
    have "owners fs path dirents (path_join path ?e) = []"
    proof (rule ccontr)
      assume "owners fs path dirents (path_join path ?e) \<noteq> []"
      then obtain o' where "o' \<in> set (owners fs path dirents (path_join path ?e))"
        by (cases "owners fs path dirents (path_join path ?e)") auto
      then have "o' \<in> set dirents \<and> lookup fs (path_join path o') = Some RegularFile
          \<and> path_join path ?e \<in> set (so_links (path_join path o'))"
        by (rule owner_is_regular)
      then have "replaceable fs (path_join path ?e)" using assms(4) by blast
      then show False using e(2) replaceable_not_regular by blast
    qed
    then have "lookup fs' (path_join path ?e) = Some RegularFile"
      using unowned e(2) by simp
    then have "stat fs' l = Some (path_join path ?e, RegularFile)"
      using lk path_join_absolute[OF assms(2)] stat_link_to_regular by blast
    then show "lookup fs' l = Some (SymbolicLink (path_join path ?e))
      \<and> stat fs' l = Some (path_join path ?e, RegularFile)"
      using lk by simp
  qed
  have single: "\<forall>d\<in>set dirents. lookup fs (path_join path d) = Some RegularFile \<longrightarrow>
                (\<forall>l\<in>set (so_links (path_join path d)).
                   owners fs path dirents l = [d] \<longrightarrow>
                     lookup fs' l = Some (SymbolicLink (path_join path d))
                     \<and> stat fs' l = Some (path_join path d, RegularFile))"
  proof (intro ballI impI)
    fix d l
    assume o: "owners fs path dirents l = [d]"
    then have "owners fs path dirents l \<noteq> []" by simp
    from owned[OF this] show "lookup fs' l = Some (SymbolicLink (path_join path d))
                     \<and> stat fs' l = Some (path_join path d, RegularFile)"
      using o by simp
  qed
  have names: "\<forall>base x y z.
             version_number x \<and> version_number y \<and> version_number z \<and> base \<noteq> []
             \<and> hd base \<noteq> CHR ''/'' \<and> LF \<notin> set base \<and> LF \<notin> set path \<longrightarrow>
             so_links (path_join path (versioned_name base x y z)) =
               [path_join path (base @ ''.so.'' @ x @ ''.'' @ y),
                path_join path (base @ ''.so.'' @ x),
                path_join path (base @ ''.so'')]"
    using so_links_versioned_name by blast
  show ?thesis using res owned single unowned names by blast
qed

lemma symlink_clash:
  assumes "lookup fs f = Some RegularFile" and "\<not> replaceable fs l"
  shows "symlink f l fs =
           Inl (AssertionError (''Failed to make symlink: dst '' @ l @ '' exists''))"
proof -
  have "isfile fs f" using assms(1) by (rule isfile_regular)
  moreover have nl: "\<not> islink fs l" and "lookup fs l \<noteq> None"
    using assms(2) by (simp_all add: replaceable_def)
  moreover from this have "path_exists fs l" by (simp add: exists_not_link)
  ultimately show ?thesis by (simp add: symlink_dst_exists)
qed

lemma not_replaceable_update:
  assumes "lookup fs' = (lookup fs)(l \<mapsto> SymbolicLink f)"
    and "replaceable fs l" and "\<not> replaceable fs q"
  shows "\<not> replaceable fs' q"
proof -
  have "q \<noteq> l" using assms(2,3) by blast
  then have "lookup fs' q = lookup fs q" using assms(1) by simp
  then show ?thesis using assms(3) by (simp add: replaceable_def islink_def)
qed

lemma loop_fails_first:
  assumes "\<not> isdir fs (path_join path d)" and "\<not> islink fs (path_join path d)"
    and "so_match (path_join path d) = Some (so, x, y, z)"
    and "symlink (path_join path d) (so @ ''.'' @ x @ ''.'' @ y) fs = Inl ex"
  shows "so_symlinks_loop path (d # rest) fs = Inl ex"
  using assms by (simp add: Let_def)

lemma loop_fails_second:
  assumes "\<not> isdir fs (path_join path d)" and "\<not> islink fs (path_join path d)"
    and "so_match (path_join path d) = Some (so, x, y, z)"
    and "symlink (path_join path d) (so @ ''.'' @ x @ ''.'' @ y) fs = Inr fs1"
    and "symlink (path_join path d) (so @ ''.'' @ x) fs1 = Inl ex"
  shows "so_symlinks_loop path (d # rest) fs = Inl ex"
  using assms by (simp add: Let_def)

lemma loop_fails_third:
  assumes "\<not> isdir fs (path_join path d)" and "\<not> islink fs (path_join path d)"
    and "so_match (path_join path d) = Some (so, x, y, z)"
    and "symlink (path_join path d) (so @ ''.'' @ x @ ''.'' @ y) fs = Inr fs1"
    and "symlink (path_join path d) (so @ ''.'' @ x) fs1 = Inr fs2"
    and "symlink (path_join path d) so fs2 = Inl ex"
  shows "so_symlinks_loop path (d # rest) fs = Inl ex"
  using assms by (simp add: Let_def)

lemma entry_clash:
  assumes reg: "lookup fs f = Some RegularFile"
    and clash: "\<not> replaceable fs l1 \<or> \<not> replaceable fs l2 \<or> \<not> replaceable fs l3"
  shows "\<exists>l\<in>{l1, l2, l3}. \<not> replaceable fs l \<and>
           ((symlink f l1 fs = Inl (AssertionError (''Failed to make symlink: dst '' @ l @ '' exists'')))
            \<or> (\<exists>fs1. symlink f l1 fs = Inr fs1 \<and>
                 symlink f l2 fs1 = Inl (AssertionError (''Failed to make symlink: dst '' @ l @ '' exists'')))
            \<or> (\<exists>fs1 fs2. symlink f l1 fs = Inr fs1 \<and> symlink f l2 fs1 = Inr fs2 \<and>
                 symlink f l3 fs2 = Inl (AssertionError (''Failed to make symlink: dst '' @ l @ '' exists''))))"
proof (cases "replaceable fs l1")
  case False
  then show ?thesis using symlink_clash[OF reg False] by blast
next
  case r1: True
  obtain fs1 where s1: "symlink f l1 fs = Inr fs1"
      and k1: "lookup fs1 = (lookup fs)(l1 \<mapsto> SymbolicLink f)"
      and f1: "lookup fs1 f = Some RegularFile"
    using symlink_step[OF reg r1] by blast
  show ?thesis
  proof (cases "replaceable fs l2")
    case False
    have "\<not> replaceable fs1 l2" using k1 r1 False by (rule not_replaceable_update)
    then have "symlink f l2 fs1 =
        Inl (AssertionError (''Failed to make symlink: dst '' @ l2 @ '' exists''))"
      using f1 symlink_clash by blast
    then show ?thesis using s1 False by blast
  next
    case r2: True
    have r21: "replaceable fs1 l2" using k1 r2 by (rule replaceable_update)
    obtain fs2 where s2: "symlink f l2 fs1 = Inr fs2"
        and k2: "lookup fs2 = (lookup fs1)(l2 \<mapsto> SymbolicLink f)"
        and f2: "lookup fs2 f = Some RegularFile"
      using symlink_step[OF f1 r21] by blast
    have n3: "\<not> replaceable fs l3" using clash r1 r2 by blast
    have "\<not> replaceable fs1 l3" using k1 r1 n3 by (rule not_replaceable_update)
    then have "\<not> replaceable fs2 l3" using k2 r21 not_replaceable_update by blast
    then have "symlink f l3 fs2 =
        Inl (AssertionError (''Failed to make symlink: dst '' @ l3 @ '' exists''))"
      using f2 symlink_clash by blast
    then show ?thesis using s1 s2 n3 by blast
  qed
qed

lemma so_symlinks_loop_clash:
  assumes "\<forall>d\<in>set ds. so_match (path_join path d) \<noteq> None \<longrightarrow>
              lookup fs (path_join path d) \<noteq> Some Special \<and> lookup fs (path_join path d) \<noteq> None"
    and "\<exists>d\<in>set ds. lookup fs (path_join path d) = Some RegularFile
            \<and> (\<exists>l\<in>set (so_links (path_join path d)). \<not> replaceable fs l)"
  shows "\<exists>d\<in>set ds. \<exists>l\<in>set (so_links (path_join path d)).
           lookup fs (path_join path d) = Some RegularFile \<and> \<not> replaceable fs l
           \<and> so_symlinks_loop path ds fs =
               Inl (AssertionError (''Failed to make symlink: dst '' @ l @ '' exists''))"
  using assms
proof (induction ds arbitrary: fs)
  case Nil
  then show ?case by simp
next
  case (Cons d rest)
  let ?f = "path_join path d"
  have A1: "\<forall>d\<in>set rest. so_match (path_join path d) \<noteq> None \<longrightarrow>
              lookup fs (path_join path d) \<noteq> Some Special \<and> lookup fs (path_join path d) \<noteq> None"
    using Cons.prems(1) by simp
  show ?case
  proof (cases "isdir fs ?f \<or> islink fs ?f \<or> so_match ?f = None")
    case True
    have "\<not> (lookup fs ?f = Some RegularFile \<and> (\<exists>l\<in>set (so_links ?f). \<not> replaceable fs l))"
      using True not_isdir_regular[of fs ?f] by (auto simp: islink_def so_links_no_match)
    then have "\<exists>d\<in>set rest. lookup fs (path_join path d) = Some RegularFile
            \<and> (\<exists>l\<in>set (so_links (path_join path d)). \<not> replaceable fs l)"
      using Cons.prems(2) by auto
    with A1 have "\<exists>d\<in>set rest. \<exists>l\<in>set (so_links (path_join path d)).
           lookup fs (path_join path d) = Some RegularFile \<and> \<not> replaceable fs l
           \<and> so_symlinks_loop path rest fs =
               Inl (AssertionError (''Failed to make symlink: dst '' @ l @ '' exists''))"
      by (rule Cons.IH)
    then show ?thesis by (simp only: loop_skip[OF True]) auto
  next
    case False
    then have nd: "\<not> isdir fs ?f" and nl: "\<not> islink fs ?f" by simp_all
    from False obtain so x y z where m: "so_match ?f = Some (so, x, y, z)"
      by (cases "so_match ?f") auto
    let ?l1 = "so @ ''.'' @ x @ ''.'' @ y" and ?l2 = "so @ ''.'' @ x"
    let ?L = "SymbolicLink ?f"
    have links: "so_links ?f = [?l1, ?l2, so]" using m by (rule so_links_match)
    have "lookup fs ?f \<noteq> Some Special \<and> lookup fs ?f \<noteq> None"
      using Cons.prems(1) m by simp
    then have reg: "lookup fs ?f = Some RegularFile"
      using nd nl entry_is_regular by blast
    show ?thesis
    proof (cases "replaceable fs ?l1 \<and> replaceable fs ?l2 \<and> replaceable fs so")
      case False
      then have "\<not> replaceable fs ?l1 \<or> \<not> replaceable fs ?l2 \<or> \<not> replaceable fs so"
        by blast
      from entry_clash[OF reg this] obtain l where l: "l \<in> {?l1, ?l2, so}" "\<not> replaceable fs l"
        and cases3: "(symlink ?f ?l1 fs = Inl (AssertionError (''Failed to make symlink: dst '' @ l @ '' exists'')))
            \<or> (\<exists>fs1. symlink ?f ?l1 fs = Inr fs1 \<and>
                 symlink ?f ?l2 fs1 = Inl (AssertionError (''Failed to make symlink: dst '' @ l @ '' exists'')))
            \<or> (\<exists>fs1 fs2. symlink ?f ?l1 fs = Inr fs1 \<and> symlink ?f ?l2 fs1 = Inr fs2 \<and>
                 symlink ?f so fs2 = Inl (AssertionError (''Failed to make symlink: dst '' @ l @ '' exists'')))"
        by blast
      have "so_symlinks_loop path (d # rest) fs =
          Inl (AssertionError (''Failed to make symlink: dst '' @ l @ '' exists''))"
        using cases3 loop_fails_first[OF nd nl m] loop_fails_second[OF nd nl m]
          loop_fails_third[OF nd nl m] by blast
      moreover have "l \<in> set (so_links ?f)" using l(1) links by auto
      ultimately show ?thesis using reg l(2) by auto
    next
      case True
      then have r: "replaceable fs ?l1" "replaceable fs ?l2" "replaceable fs so" by simp_all
      obtain fs1 fs2 fs3 where s: "symlink ?f ?l1 fs = Inr fs1" "symlink ?f ?l2 fs1 = Inr fs2"
          "symlink ?f so fs2 = Inr fs3"
          and k3: "lookup fs3 = (lookup fs)(?l1 \<mapsto> ?L, ?l2 \<mapsto> ?L, so \<mapsto> ?L)"
        using three_symlinks[OF reg r] by blast
      have step: "so_symlinks_loop path (d # rest) fs = so_symlinks_loop path rest fs3"
        using nd nl m s by (rule loop_link)
      have look3: "\<And>q. lookup fs3 q = (if q \<in> {?l1, ?l2, so} then Some ?L else lookup fs q)"
        using k3 by auto
      have same_reg: "\<And>q. (lookup fs3 q = Some RegularFile) = (lookup fs q = Some RegularFile)"
      proof -
        fix q
        show "(lookup fs3 q = Some RegularFile) = (lookup fs q = Some RegularFile)"
        proof (cases "q \<in> {?l1, ?l2, so}")
          case True
          then have "replaceable fs q" using r by auto
          then have "lookup fs q \<noteq> Some RegularFile" by (rule replaceable_not_regular)
          then show ?thesis using True look3 by simp
        next
          case False
          then show ?thesis using look3 by simp
        qed
      qed
      have same_repl: "\<And>q. replaceable fs3 q = (q \<in> {?l1, ?l2, so} \<or> replaceable fs q)"
        using look3 r by (auto simp: replaceable_def islink_def)
      have A1': "\<forall>d\<in>set rest. so_match (path_join path d) \<noteq> None \<longrightarrow>
              lookup fs3 (path_join path d) \<noteq> Some Special \<and> lookup fs3 (path_join path d) \<noteq> None"
        using A1 look3 by simp
      have "\<not> (\<exists>l\<in>set (so_links ?f). \<not> replaceable fs l)" using links r by simp
      then obtain d' l' where d': "d' \<in> set rest" "lookup fs (path_join path d') = Some RegularFile"
          "l' \<in> set (so_links (path_join path d'))" "\<not> replaceable fs l'"
        using Cons.prems(2) by auto
      have "l' \<notin> {?l1, ?l2, so}" using d'(4) r by auto
      then have "\<not> replaceable fs3 l'" using d'(4) same_repl by simp
      then have "\<exists>d\<in>set rest. lookup fs3 (path_join path d) = Some RegularFile
            \<and> (\<exists>l\<in>set (so_links (path_join path d)). \<not> replaceable fs3 l)"
        using d' same_reg by blast
      with A1' have "\<exists>d\<in>set rest. \<exists>l\<in>set (so_links (path_join path d)).
           lookup fs3 (path_join path d) = Some RegularFile \<and> \<not> replaceable fs3 l
           \<and> so_symlinks_loop path rest fs3 =
               Inl (AssertionError (''Failed to make symlink: dst '' @ l @ '' exists''))"
        by (rule Cons.IH)
      then obtain d2 l2 where "d2 \<in> set rest" "l2 \<in> set (so_links (path_join path d2))"
          "lookup fs3 (path_join path d2) = Some RegularFile" "\<not> replaceable fs3 l2"
          "so_symlinks_loop path rest fs3 =
               Inl (AssertionError (''Failed to make symlink: dst '' @ l2 @ '' exists''))"
        by blast
      then have "d2 \<in> set (d # rest) \<and> l2 \<in> set (so_links (path_join path d2))
          \<and> lookup fs (path_join path d2) = Some RegularFile \<and> \<not> replaceable fs l2
          \<and> so_symlinks_loop path (d # rest) fs =
               Inl (AssertionError (''Failed to make symlink: dst '' @ l2 @ '' exists''))"
        using same_reg same_repl step by simp
      then show ?thesis by blast
    qed
  qed
qed


lemma so_symlinks_clash:
  assumes "listdir fs path = Inr dirents"
    and "\<forall>d\<in>set dirents. so_match (path_join path d) \<noteq> None \<longrightarrow>
           lookup fs (path_join path d) \<noteq> Some Special"
    and "\<exists>d\<in>set dirents. lookup fs (path_join path d) = Some RegularFile
            \<and> (\<exists>l\<in>set (so_links (path_join path d)). \<not> replaceable fs l)"
  shows "\<exists>d\<in>set dirents. \<exists>l\<in>set (so_links (path_join path d)).
           lookup fs (path_join path d) = Some RegularFile \<and> \<not> replaceable fs l
           \<and> so_symlinks path fs =
               Inl (AssertionError (''Failed to make symlink: dst '' @ l @ '' exists''))"
proof -
  have A1: "\<forall>d\<in>set dirents. so_match (path_join path d) \<noteq> None \<longrightarrow>
              lookup fs (path_join path d) \<noteq> Some Special \<and> lookup fs (path_join path d) \<noteq> None"
    using assms(2) listdir_entry_exists[OF assms(1)] by blast
  have "\<exists>d\<in>set dirents. \<exists>l\<in>set (so_links (path_join path d)).
           lookup fs (path_join path d) = Some RegularFile \<and> \<not> replaceable fs l
           \<and> so_symlinks_loop path dirents fs =
               Inl (AssertionError (''Failed to make symlink: dst '' @ l @ '' exists''))"
    using A1 assms(3) by (rule so_symlinks_loop_clash)
  then show ?thesis using assms(1) by (simp add: so_symlinks_def)
qed

text \<open>
  Claim C9, as the code has it. Let every entry of the directory that the pattern matches
  be a directory, a symbolic link or a regular file. When the directory is given by an
  absolute path and every link name of a regular entry is absent or a symbolic link,
  \<^verbatim>\<open>_so_symlinks\<close> succeeds, and every link name of a matching regular entry is afterwards a
  symbolic link to the last listed entry that has this link name, and resolves to it: to
  that entry itself when no other entry shares the name. Every other path is left as it
  was. When some link name of a regular entry exists and is not a symbolic link,
  \<^verbatim>\<open>_so_symlinks\<close> raises the AssertionError of \<^verbatim>\<open>symlink\<close> for such a name and returns nothing.
  An entry named \<^verbatim>\<open><base>.so.<x>.<y>.<z>\<close> has the three link names \<^verbatim>\<open><base>.so.<x>.<y>\<close>,
  \<^verbatim>\<open><base>.so.<x>\<close> and \<^verbatim>\<open><base>.so\<close> in the directory. In particular a directory that holds
  only \<^verbatim>\<open>foo.so.1.2.3\<close> also holds afterwards the links \<^verbatim>\<open>foo.so.1.2\<close>, \<^verbatim>\<open>foo.so.1\<close> and
  \<^verbatim>\<open>foo.so\<close>, each resolving to \<^verbatim>\<open>foo.so.1.2.3\<close>.
\<close>

theorem so_symlinks_creates_version_links:
  assumes "listdir fs path = Inr dirents"
    and "\<forall>d\<in>set dirents. so_match (path_join path d) \<noteq> None \<longrightarrow>
           lookup fs (path_join path d) \<noteq> Some Special"
  shows "(path \<noteq> [] \<and> hd path = CHR ''/''
          \<and> (\<forall>d\<in>set dirents. lookup fs (path_join path d) = Some RegularFile \<longrightarrow>
                (\<forall>l\<in>set (so_links (path_join path d)). replaceable fs l))
         \<longrightarrow>
          (\<exists>fs'. so_symlinks path fs = Inr fs'
            \<and> (\<forall>l. owners fs path dirents l \<noteq> [] \<longrightarrow>
                  lookup fs' l =
                    Some (SymbolicLink (path_join path (last (owners fs path dirents l))))
                  \<and> stat fs' l =
                    Some (path_join path (last (owners fs path dirents l)), RegularFile))
            \<and> (\<forall>d\<in>set dirents. lookup fs (path_join path d) = Some RegularFile \<longrightarrow>
                  (\<forall>l\<in>set (so_links (path_join path d)).
                     owners fs path dirents l = [d] \<longrightarrow>
                       lookup fs' l = Some (SymbolicLink (path_join path d))
                       \<and> stat fs' l = Some (path_join path d, RegularFile)))
            \<and> (\<forall>p. owners fs path dirents p = [] \<longrightarrow> lookup fs' p = lookup fs p)))
       \<and> ((\<exists>d\<in>set dirents. lookup fs (path_join path d) = Some RegularFile
              \<and> (\<exists>l\<in>set (so_links (path_join path d)). \<not> replaceable fs l))
         \<longrightarrow>
          (\<exists>d\<in>set dirents. \<exists>l\<in>set (so_links (path_join path d)).
             lookup fs (path_join path d) = Some RegularFile \<and> \<not> replaceable fs l
             \<and> so_symlinks path fs =
                 Inl (AssertionError (''Failed to make symlink: dst '' @ l @ '' exists''))))
       \<and> (\<forall>base x y z.
             version_number x \<and> version_number y \<and> version_number z \<and> base \<noteq> []
             \<and> hd base \<noteq> CHR ''/'' \<and> LF \<notin> set base \<and> LF \<notin> set path \<longrightarrow>
             so_links (path_join path (versioned_name base x y z)) =
               [path_join path (base @ ''.so.'' @ x @ ''.'' @ y),
                path_join path (base @ ''.so.'' @ x),
                path_join path (base @ ''.so'')])"
proof (intro conjI impI)
  assume a: "path \<noteq> [] \<and> hd path = CHR ''/''
          \<and> (\<forall>d\<in>set dirents. lookup fs (path_join path d) = Some RegularFile \<longrightarrow>
                (\<forall>l\<in>set (so_links (path_join path d)). replaceable fs l))"
  then have a1: "path \<noteq> [] \<and> hd path = CHR ''/''"
    and a2: "\<forall>d\<in>set dirents. lookup fs (path_join path d) = Some RegularFile \<longrightarrow>
                (\<forall>l\<in>set (so_links (path_join path d)). replaceable fs l)"
    by blast+
  show "\<exists>fs'. so_symlinks path fs = Inr fs'
            \<and> (\<forall>l. owners fs path dirents l \<noteq> [] \<longrightarrow>
                  lookup fs' l =
                    Some (SymbolicLink (path_join path (last (owners fs path dirents l))))
                  \<and> stat fs' l =
                    Some (path_join path (last (owners fs path dirents l)), RegularFile))
            \<and> (\<forall>d\<in>set dirents. lookup fs (path_join path d) = Some RegularFile \<longrightarrow>
                  (\<forall>l\<in>set (so_links (path_join path d)).
                     owners fs path dirents l = [d] \<longrightarrow>
                       lookup fs' l = Some (SymbolicLink (path_join path d))
                       \<and> stat fs' l = Some (path_join path d, RegularFile)))
            \<and> (\<forall>p. owners fs path dirents p = [] \<longrightarrow> lookup fs' p = lookup fs p)"
    using so_symlinks_links_made[OF assms(1) a1 assms(2) a2] by (rule conjunct1)
next
  assume "\<exists>d\<in>set dirents. lookup fs (path_join path d) = Some RegularFile
              \<and> (\<exists>l\<in>set (so_links (path_join path d)). \<not> replaceable fs l)"
  with assms show "\<exists>d\<in>set dirents. \<exists>l\<in>set (so_links (path_join path d)).
             lookup fs (path_join path d) = Some RegularFile \<and> \<not> replaceable fs l
             \<and> so_symlinks path fs =
                 Inl (AssertionError (''Failed to make symlink: dst '' @ l @ '' exists''))"
    by (rule so_symlinks_clash)
next
  show "\<forall>base x y z.
             version_number x \<and> version_number y \<and> version_number z \<and> base \<noteq> []
             \<and> hd base \<noteq> CHR ''/'' \<and> LF \<notin> set base \<and> LF \<notin> set path \<longrightarrow>
             so_links (path_join path (versioned_name base x y z)) =
               [path_join path (base @ ''.so.'' @ x @ ''.'' @ y),
                path_join path (base @ ''.so.'' @ x),
                path_join path (base @ ''.so'')]"
    using so_links_versioned_name by blast
qed

theorem so_symlinks_creates_version_links_witness:
  "listdir lib_filesystem ''/lib'' = Inr [''foo.so.1.2.3'']
   \<and> lookup lib_filesystem ''/lib/foo.so.1.2.3'' = Some RegularFile
   \<and> replaceable lib_filesystem ''/lib/foo.so.1.2''
   \<and> replaceable lib_filesystem ''/lib/foo.so.1''
   \<and> replaceable lib_filesystem ''/lib/foo.so''
   \<and> so_links (path_join ''/lib'' (versioned_name ''foo'' ''1'' ''2'' ''3'')) =
       [''/lib/foo.so.1.2'', ''/lib/foo.so.1'', ''/lib/foo.so'']
   \<and> (\<exists>fs'. so_symlinks ''/lib'' lib_filesystem = Inr fs'
         \<and> lookup fs' ''/lib/foo.so.1.2'' = Some (SymbolicLink ''/lib/foo.so.1.2.3'')
         \<and> stat fs' ''/lib/foo.so.1.2'' = Some (''/lib/foo.so.1.2.3'', RegularFile)
         \<and> lookup fs' ''/lib/foo.so.1'' = Some (SymbolicLink ''/lib/foo.so.1.2.3'')
         \<and> stat fs' ''/lib/foo.so.1'' = Some (''/lib/foo.so.1.2.3'', RegularFile)
         \<and> lookup fs' ''/lib/foo.so'' = Some (SymbolicLink ''/lib/foo.so.1.2.3'')
         \<and> stat fs' ''/lib/foo.so'' = Some (''/lib/foo.so.1.2.3'', RegularFile)
         \<and> lookup fs' ''/lib/foo.so.1.2.3'' = Some RegularFile
         \<and> lookup fs' ''/lib'' = Some Directory)
   \<and> listdir clash_filesystem ''/lib'' = Inr [''foo.so.1.2.3'', ''foo.so'']
   \<and> lookup clash_filesystem ''/lib/foo.so.1.2.3'' = Some RegularFile
   \<and> \<not> replaceable clash_filesystem ''/lib/foo.so''
   \<and> so_symlinks ''/lib'' clash_filesystem =
       Inl (AssertionError ''Failed to make symlink: dst /lib/foo.so exists'')"
proof -
  have h1: "listdir lib_filesystem ''/lib'' = Inr [''foo.so.1.2.3'']" by code_simp
  have h2: "''/lib'' \<noteq> [] \<and> hd ''/lib'' = CHR ''/''" by simp
  have h3: "\<forall>d\<in>set [''foo.so.1.2.3'']. so_match (path_join ''/lib'' d) \<noteq> None \<longrightarrow>
           lookup lib_filesystem (path_join ''/lib'' d) \<noteq> Some Special"
    by code_simp
  have h4: "\<forall>d\<in>set [''foo.so.1.2.3''].
           lookup lib_filesystem (path_join ''/lib'' d) = Some RegularFile \<longrightarrow>
           (\<forall>l\<in>set (so_links (path_join ''/lib'' d)). replaceable lib_filesystem l)"
    by code_simp
  have facts: "lookup lib_filesystem ''/lib/foo.so.1.2.3'' = Some RegularFile
   \<and> replaceable lib_filesystem ''/lib/foo.so.1.2''
   \<and> replaceable lib_filesystem ''/lib/foo.so.1''
   \<and> replaceable lib_filesystem ''/lib/foo.so''
   \<and> lookup lib_filesystem ''/lib'' = Some Directory
   \<and> so_links (path_join ''/lib'' (versioned_name ''foo'' ''1'' ''2'' ''3'')) =
       [''/lib/foo.so.1.2'', ''/lib/foo.so.1'', ''/lib/foo.so'']"
    by code_simp
  have o: "owners lib_filesystem ''/lib'' [''foo.so.1.2.3''] ''/lib/foo.so.1.2'' = [''foo.so.1.2.3'']
     \<and> owners lib_filesystem ''/lib'' [''foo.so.1.2.3''] ''/lib/foo.so.1'' = [''foo.so.1.2.3'']
     \<and> owners lib_filesystem ''/lib'' [''foo.so.1.2.3''] ''/lib/foo.so'' = [''foo.so.1.2.3'']
     \<and> owners lib_filesystem ''/lib'' [''foo.so.1.2.3''] ''/lib/foo.so.1.2.3'' = []
     \<and> owners lib_filesystem ''/lib'' [''foo.so.1.2.3''] ''/lib'' = []
     \<and> path_join ''/lib'' ''foo.so.1.2.3'' = ''/lib/foo.so.1.2.3''"
    by code_simp
  from so_symlinks_creates_version_links[OF h1 h3] h2 h4
  obtain fs' where r: "so_symlinks ''/lib'' lib_filesystem = Inr fs'"
    and owned: "\<And>l. owners lib_filesystem ''/lib'' [''foo.so.1.2.3''] l \<noteq> [] \<Longrightarrow>
                lookup fs' l =
                  Some (SymbolicLink (path_join ''/lib''
                     (last (owners lib_filesystem ''/lib'' [''foo.so.1.2.3''] l))))
                \<and> stat fs' l =
                  Some (path_join ''/lib''
                     (last (owners lib_filesystem ''/lib'' [''foo.so.1.2.3''] l)), RegularFile)"
    and unowned: "\<And>p. owners lib_filesystem ''/lib'' [''foo.so.1.2.3''] p = [] \<Longrightarrow>
                lookup fs' p = lookup lib_filesystem p"
    by blast
  have "lookup fs' ''/lib/foo.so.1.2'' = Some (SymbolicLink ''/lib/foo.so.1.2.3'')
         \<and> stat fs' ''/lib/foo.so.1.2'' = Some (''/lib/foo.so.1.2.3'', RegularFile)"
    using owned[of "''/lib/foo.so.1.2''"] o by simp
  moreover have "lookup fs' ''/lib/foo.so.1'' = Some (SymbolicLink ''/lib/foo.so.1.2.3'')
         \<and> stat fs' ''/lib/foo.so.1'' = Some (''/lib/foo.so.1.2.3'', RegularFile)"
    using owned[of "''/lib/foo.so.1''"] o by simp
  moreover have "lookup fs' ''/lib/foo.so'' = Some (SymbolicLink ''/lib/foo.so.1.2.3'')
         \<and> stat fs' ''/lib/foo.so'' = Some (''/lib/foo.so.1.2.3'', RegularFile)"
    using owned[of "''/lib/foo.so''"] o by simp
  moreover have "lookup fs' ''/lib/foo.so.1.2.3'' = Some RegularFile"
    using unowned[of "''/lib/foo.so.1.2.3''"] o facts by simp
  moreover have "lookup fs' ''/lib'' = Some Directory"
    using unowned[of "''/lib''"] o facts by simp
  ultimately have made: "\<exists>fs'. so_symlinks ''/lib'' lib_filesystem = Inr fs'
         \<and> lookup fs' ''/lib/foo.so.1.2'' = Some (SymbolicLink ''/lib/foo.so.1.2.3'')
         \<and> stat fs' ''/lib/foo.so.1.2'' = Some (''/lib/foo.so.1.2.3'', RegularFile)
         \<and> lookup fs' ''/lib/foo.so.1'' = Some (SymbolicLink ''/lib/foo.so.1.2.3'')
         \<and> stat fs' ''/lib/foo.so.1'' = Some (''/lib/foo.so.1.2.3'', RegularFile)
         \<and> lookup fs' ''/lib/foo.so'' = Some (SymbolicLink ''/lib/foo.so.1.2.3'')
         \<and> stat fs' ''/lib/foo.so'' = Some (''/lib/foo.so.1.2.3'', RegularFile)
         \<and> lookup fs' ''/lib/foo.so.1.2.3'' = Some RegularFile
         \<and> lookup fs' ''/lib'' = Some Directory"
    using r by blast
  have c1: "listdir clash_filesystem ''/lib'' = Inr [''foo.so.1.2.3'', ''foo.so'']" by code_simp
  have c3: "\<forall>d\<in>set [''foo.so.1.2.3'', ''foo.so'']. so_match (path_join ''/lib'' d) \<noteq> None \<longrightarrow>
           lookup clash_filesystem (path_join ''/lib'' d) \<noteq> Some Special"
    by code_simp
  have cfacts: "lookup clash_filesystem ''/lib/foo.so.1.2.3'' = Some RegularFile
     \<and> \<not> replaceable clash_filesystem ''/lib/foo.so''"
    by code_simp
  have free: "replaceable clash_filesystem ''/lib/foo.so.1.2''
     \<and> replaceable clash_filesystem ''/lib/foo.so.1''"
    by code_simp
  have pj: "path_join ''/lib'' ''foo.so.1.2.3'' = ''/lib/foo.so.1.2.3''
     \<and> path_join ''/lib'' ''foo.so'' = ''/lib/foo.so''"
    by code_simp
  have sl: "so_links ''/lib/foo.so.1.2.3'' =
         [''/lib/foo.so.1.2'', ''/lib/foo.so.1'', ''/lib/foo.so'']
     \<and> so_links ''/lib/foo.so'' = []"
    by code_simp
  have c4: "\<exists>d\<in>set [''foo.so.1.2.3'', ''foo.so''].
      lookup clash_filesystem (path_join ''/lib'' d) = Some RegularFile
      \<and> (\<exists>l\<in>set (so_links (path_join ''/lib'' d)). \<not> replaceable clash_filesystem l)"
    by code_simp
  from so_symlinks_creates_version_links[OF c1 c3] c4
  obtain d l where dl: "d \<in> set [''foo.so.1.2.3'', ''foo.so'']"
      "l \<in> set (so_links (path_join ''/lib'' d))" "\<not> replaceable clash_filesystem l"
      "so_symlinks ''/lib'' clash_filesystem =
         Inl (AssertionError (''Failed to make symlink: dst '' @ l @ '' exists''))"
    by blast
  have "l = ''/lib/foo.so''"
  proof (cases "d = ''foo.so.1.2.3''")
    case True
    then have "l \<in> {''/lib/foo.so.1.2'', ''/lib/foo.so.1'', ''/lib/foo.so''}"
      using dl(2) by (simp add: pj sl)
    then show ?thesis using dl(3) free by blast
  next
    case False
    then have "d = ''foo.so''" using dl(1) by simp
    then show ?thesis using dl(2) by (simp add: pj sl)
  qed
  then have raised: "so_symlinks ''/lib'' clash_filesystem =
       Inl (AssertionError ''Failed to make symlink: dst /lib/foo.so exists'')"
    using dl(4) by simp
  show ?thesis using h1 facts made c1 cfacts raised by blast
qed

text \<open>
  Claim C9 as stated fails: with a regular file \<^verbatim>\<open>foo.so\<close> next to \<^verbatim>\<open>foo.so.1.2.3\<close> the call
  raises in \<^verbatim>\<open>symlink\<close>; with two versions of one library the links of the entry listed
  first end up resolving to the other; and under a relative directory path the links made
  do not resolve, since a relative target is read from the directory of the link.
\<close>

theorem so_symlinks_counterexample:
  "(case so_symlinks ''/lib'' clash_filesystem of
      Inl ex \<Rightarrow> ex = AssertionError ''Failed to make symlink: dst /lib/foo.so exists''
    | Inr fs' \<Rightarrow> False)
   \<and> (case so_symlinks ''/lib'' two_versions_filesystem of
      Inl ex \<Rightarrow> False
    | Inr fs' \<Rightarrow> stat fs' ''/lib/foo.so.1.2'' = Some (''/lib/foo.so.1.2.4'', RegularFile))
   \<and> (case so_symlinks ''lib'' relative_filesystem of
      Inl ex \<Rightarrow> False
    | Inr fs' \<Rightarrow> lookup fs' ''lib/foo.so'' = Some (SymbolicLink ''lib/foo.so.1.2.3'')
                 \<and> stat fs' ''lib/foo.so'' = None)"
  by code_simp

end
